theory Spec2Isabelle
  imports Main "HOL-Library.Char_ord" "HOL-Library.List_Lexorder" "HOL-Library.Multiset"
begin

section \<open>Data model\<close>

text \<open>
  The catalog store of \<^verbatim>\<open>bookstore_app\<close>: one table per record type. The model
  classes live in \<^verbatim>\<open>models.py\<close>, which is not part of the sources at hand; the
  records below carry the fields the specification's data model names (identifier, name;
  identifier, title, description, author reference, category reference). \<^verbatim>\<open>user\<close>
  and \<^verbatim>\<open>token\<close> are the framework's \<^verbatim>\<open>User\<close> and \<^verbatim>\<open>Token\<close> models, reduced
  to the fields the views read.
\<close>

record author =
  author_id :: nat
  author_name :: string

record category =
  category_id :: nat
  category_name :: string

record book =
  book_id :: nat
  title :: string
  description :: string
  book_author :: nat
  book_category :: nat

record user =
  user_id :: nat
  username :: string
  email :: string
  password :: string
  is_active :: bool

record token =
  key :: string
  token_user :: nat

record store =
  authors :: "author list"
  categories :: "category list"
  books :: "book list"
  users :: "user list"
  tokens :: "token list"

section \<open>Requests and responses\<close>

text \<open>
  \<^verbatim>\<open>request.query_params\<close> and \<^verbatim>\<open>request.data\<close> are dictionaries from names to
  strings (form-encoded data; typed JSON values are outside the model). The
  \<^verbatim>\<open>Authorization\<close> header carries the token key, when there is one.
\<close>

type_synonym params = "string \<rightharpoonup> string"

record request =
  auth_token :: "string option"
  query_params :: params
  data :: params

type_synonym errors = "(string \<times> string list) list"

datatype jval = JNum nat | JStr string

datatype body =
    Dict "(string \<times> jval) list"
  | Errors errors
  | ErrorList "string list"
  | Detail string
  | BookData book
  | BookList "book list"
  | Paginated nat "book list"
  | Rendered string "author list" "category list" "book list"
  | NoContent

datatype response = Response nat body

section \<open>Strings\<close>

text \<open>
  A Python string is a sequence of code points. A character of the model is a code point
  below 256, so the strings of the model are the strings of that range; \<^verbatim>\<open>is_space\<close>
  holds of the code points of the range that \<^verbatim>\<open>str.isspace\<close> accepts, which are the
  ones \<^verbatim>\<open>str.strip()\<close>, \<^verbatim>\<open>str.split()\<close>, \<^verbatim>\<open>int()\<close> and the pattern
  \<^verbatim>\<open>\s\<close> treat as whitespace: the ASCII blanks and separators, U+0085 and U+00A0.
\<close>

definition is_space :: "char \<Rightarrow> bool" where
  "is_space c = (c \<in> set [CHR '' '', CHR 0x09, CHR 0x0A, CHR 0x0B, CHR 0x0C, CHR 0x0D,
                            CHR 0x1C, CHR 0x1D, CHR 0x1E, CHR 0x1F, CHR 0x85, CHR 0xA0])"

text \<open>\<^verbatim>\<open>str.strip()\<close>.\<close>

definition strip :: "string \<Rightarrow> string" where
  "strip s = rev (dropWhile is_space (rev (dropWhile is_space s)))"

section \<open>Login\<close>

text \<open>
  \<^verbatim>\<open>CharField.run_validation\<close> for a required field that allows neither null nor blank:
  a missing key is \<^verbatim>\<open>required\<close>, an empty (or, with \<^verbatim>\<open>trim_whitespace\<close>, all-blank)
  value is \<^verbatim>\<open>blank\<close>, a NUL character is refused by the field's validator.
\<close>

definition CharField :: "bool \<Rightarrow> string option \<Rightarrow> string list + string" where
  "CharField trim_whitespace v =
     (case v of
        None \<Rightarrow> Inl [''This field is required.'']
      | Some d \<Rightarrow>
          if d = [] \<or> (trim_whitespace \<and> strip d = []) then Inl [''This field may not be blank.'']
          else let x = (if trim_whitespace then strip d else d)
               in if CHR 0x00 \<in> set x then Inl [''Null characters are not allowed.'']
                  else Inr x)"

text \<open>
  \<^verbatim>\<open>ModelBackend.authenticate\<close>: the user of that name, when the password checks and the
  account is active. The password hasher is the framework's; it is the parameter
  \<^verbatim>\<open>check_password\<close>, applied to the raw password and the stored one.
\<close>

definition authenticate :: "(string \<Rightarrow> string \<Rightarrow> bool) \<Rightarrow> store \<Rightarrow> string \<Rightarrow> string \<Rightarrow> user option" where
  "authenticate check_password s uname pw =
     (case find (\<lambda>u. username u = uname) (users s) of
        None \<Rightarrow> None
      | Some u \<Rightarrow> if check_password pw (password u) \<and> is_active u then Some u else None)"

text \<open>
  \<^verbatim>\<open>AuthTokenSerializer.is_valid\<close>, the \<^verbatim>\<open>serializer_class\<close> that
  \<^verbatim>\<open>UserLoginView\<close> inherits from \<^verbatim>\<open>ObtainAuthToken\<close>: the two fields are validated
  first, their errors reported by field; only then \<^verbatim>\<open>validate\<close> authenticates, and its
  one failure message is filed under \<^verbatim>\<open>non_field_errors\<close>.
\<close>

definition AuthTokenSerializer_is_valid ::
  "(string \<Rightarrow> string \<Rightarrow> bool) \<Rightarrow> store \<Rightarrow> params \<Rightarrow> errors + user" where
  "AuthTokenSerializer_is_valid check_password s d =
     (case (CharField True (d ''username''), CharField False (d ''password'')) of
        (Inr uname, Inr pw) \<Rightarrow>
          (case authenticate check_password s uname pw of
             Some u \<Rightarrow> Inr u
           | None \<Rightarrow> Inl [(''non_field_errors'', [''Unable to log in with provided credentials.''])])
      | (Inl eu, Inr pw) \<Rightarrow> Inl [(''username'', eu)]
      | (Inr uname, Inl ep) \<Rightarrow> Inl [(''password'', ep)]
      | (Inl eu, Inl ep) \<Rightarrow> Inl [(''username'', eu), (''password'', ep)])"

text \<open>
  \<^verbatim>\<open>Token.objects.get_or_create(user=user)\<close>. The token of the user is returned when
  there is one. Otherwise a row is inserted under a freshly generated key
  (\<^verbatim>\<open>generate_key\<close> is the value \<^verbatim>\<open>Token.generate_key()\<close> draws); the key is the
  table's primary key, so an insert under a key already in the table is refused with
  \<^verbatim>\<open>IntegrityError\<close> and writes nothing.
\<close>

datatype db_error = IntegrityError

definition Token_get_or_create :: "string \<Rightarrow> store \<Rightarrow> user \<Rightarrow> db_error + (token \<times> bool \<times> store)" where
  "Token_get_or_create generate_key s u =
     (case find (\<lambda>t. token_user t = user_id u) (tokens s) of
        Some t \<Rightarrow> Inr (t, False, s)
      | None \<Rightarrow>
          if generate_key \<in> key ` set (tokens s) then Inl IntegrityError
          else let t = \<lparr>key = generate_key, token_user = user_id u\<rparr>
               in Inr (t, True, s\<lparr>tokens := tokens s @ [t]\<rparr>))"

text \<open>
  \<^verbatim>\<open>UserLoginView.post\<close>. An exception that no handler catches is the server's 500
  response.
\<close>

definition UserLoginView_post ::
  "(string \<Rightarrow> string \<Rightarrow> bool) \<Rightarrow> string \<Rightarrow> store \<Rightarrow> params \<Rightarrow> response \<times> store" where
  "UserLoginView_post check_password generate_key s d =
     (case AuthTokenSerializer_is_valid check_password s d of
        Inr u \<Rightarrow>
          (case Token_get_or_create generate_key s u of
             Inl e \<Rightarrow> (Response 500 (Detail ''IntegrityError''), s)
           | Inr (t, created, s') \<Rightarrow>
               (Response 200 (Dict [(''user_id'', JNum (user_id u)),
                                    (''username'', JStr (username u)),
                                    (''email'', JStr (email u)),
                                    (''token'', JStr (key t))]), s'))
      | Inl errs \<Rightarrow> (Response 400 (Errors errs), s))"


section \<open>Framework settings and view attributes\<close>

text \<open>
  \<^verbatim>\<open>settings.py\<close> is not among the sources. A view that declares no
  \<^verbatim>\<open>permission_classes\<close> or \<^verbatim>\<open>filter_backends\<close> of its own falls back on the
  project's \<^verbatim>\<open>DEFAULT_PERMISSION_CLASSES\<close> and \<^verbatim>\<open>DEFAULT_FILTER_BACKENDS\<close>, so the
  two settings are a parameter of every view. \<^verbatim>\<open>framework_defaults\<close> is what the
  framework uses when the project sets neither.
\<close>

datatype permission = AllowAny | IsAuthenticated

datatype filter_backend = SearchFilter | OrderingFilter | DjangoFilterBackend

record settings =
  DEFAULT_PERMISSION_CLASSES :: "permission list"
  DEFAULT_FILTER_BACKENDS :: "filter_backend list"

definition framework_defaults :: settings where
  "framework_defaults = \<lparr>DEFAULT_PERMISSION_CLASSES = [AllowAny], DEFAULT_FILTER_BACKENDS = []\<rparr>"

record pagination =
  page_size :: "nat option"
  page_size_query_param :: "string option"
  max_page_size :: "nat option"

text \<open>The class attributes of a view; \<^verbatim>\<open>None\<close> is an attribute the class does not set.\<close>

record view =
  permission_classes :: "permission list option"
  pagination_class :: "pagination option"
  filter_backends :: "filter_backend list option"
  filterset_fields :: "string list"
  search_fields :: "string list"

definition CustomPagination :: pagination where
  "CustomPagination =
     \<lparr>page_size = Some 10, page_size_query_param = Some ''page_size'', max_page_size = Some 100\<rparr>"

definition BookViewSet :: view where
  "BookViewSet =
     \<lparr>permission_classes = Some [IsAuthenticated],
      pagination_class = Some CustomPagination,
      filter_backends = Some [SearchFilter, OrderingFilter],
      filterset_fields = [''category__name'', ''author__name''],
      search_fields = [''title'', ''description'']\<rparr>"

definition BookDetailView :: view where
  "BookDetailView =
     \<lparr>permission_classes = None, pagination_class = None, filter_backends = None,
      filterset_fields = [], search_fields = []\<rparr>"

definition BookCreateView :: view where
  "BookCreateView =
     \<lparr>permission_classes = None, pagination_class = None, filter_backends = None,
      filterset_fields = [], search_fields = []\<rparr>"

definition BookListView :: view where
  "BookListView =
     \<lparr>permission_classes = None, pagination_class = None, filter_backends = None,
      filterset_fields = [], search_fields = []\<rparr>"

definition UserRegistrationView :: view where
  "UserRegistrationView =
     \<lparr>permission_classes = None, pagination_class = None, filter_backends = None,
      filterset_fields = [], search_fields = []\<rparr>"

definition get_permissions :: "settings \<Rightarrow> view \<Rightarrow> permission list" where
  "get_permissions cfg v =
     (case permission_classes v of None \<Rightarrow> DEFAULT_PERMISSION_CLASSES cfg | Some ps \<Rightarrow> ps)"

definition get_filter_backends :: "settings \<Rightarrow> view \<Rightarrow> filter_backend list" where
  "get_filter_backends cfg v =
     (case filter_backends v of None \<Rightarrow> DEFAULT_FILTER_BACKENDS cfg | Some bs \<Rightarrow> bs)"

section \<open>Authentication and permissions\<close>

text \<open>
  Modelled from the spec: the authentication class, which \<^verbatim>\<open>settings.py\<close> (not among
  the sources) selects. The specification has a bearer token in the request header,
  which is the framework's \<^verbatim>\<open>TokenAuthentication\<close>: no header is an anonymous
  request, a key that is not in the token table or belongs to an inactive user is
  refused with 401 before any permission is looked at.
\<close>

definition TokenAuthentication :: "store \<Rightarrow> request \<Rightarrow> response + user option" where
  "TokenAuthentication s req =
     (case auth_token req of
        None \<Rightarrow> Inr None
      | Some k \<Rightarrow>
          (case find (\<lambda>t. key t = k) (tokens s) of
             None \<Rightarrow> Inl (Response 401 (Detail ''Invalid token.''))
           | Some t \<Rightarrow>
               (case find (\<lambda>u. user_id u = token_user t) (users s) of
                  None \<Rightarrow> Inl (Response 401 (Detail ''Invalid token.''))
                | Some u \<Rightarrow>
                    if is_active u then Inr (Some u)
                    else Inl (Response 401 (Detail ''User inactive or deleted.'')))))"

fun has_permission :: "permission \<Rightarrow> user option \<Rightarrow> bool" where
  "has_permission AllowAny u = True"
| "has_permission IsAuthenticated u = (u \<noteq> None)"

text \<open>
  \<^verbatim>\<open>APIView.initial\<close>: authenticate, then \<^verbatim>\<open>check_permissions\<close>. A refused
  anonymous request is \<^verbatim>\<open>NotAuthenticated\<close> (401), a refused authenticated one
  \<^verbatim>\<open>PermissionDenied\<close> (403).
\<close>

definition initial :: "settings \<Rightarrow> view \<Rightarrow> store \<Rightarrow> request \<Rightarrow> response + user option" where
  "initial cfg v s req =
     (case TokenAuthentication s req of
        Inl r \<Rightarrow> Inl r
      | Inr u \<Rightarrow>
          if list_all (\<lambda>p. has_permission p u) (get_permissions cfg v) then Inr u
          else if u = None
            then Inl (Response 401 (Detail ''Authentication credentials were not provided.''))
            else Inl (Response 403 (Detail ''You do not have permission to perform this action.'')))"

section \<open>Filter backends\<close>

definition lower :: "char \<Rightarrow> char" where
  "lower c = (case map_of (zip ''ABCDEFGHIJKLMNOPQRSTUVWXYZ'' ''abcdefghijklmnopqrstuvwxyz'') c of
                None \<Rightarrow> c | Some l \<Rightarrow> l)"

fun starts_with :: "string \<Rightarrow> string \<Rightarrow> bool" where
  "starts_with s [] = True"
| "starts_with [] (p # ps) = False"
| "starts_with (c # cs) (p # ps) = (c = p \<and> starts_with cs ps)"

fun contains :: "string \<Rightarrow> string \<Rightarrow> bool" where
  "contains [] t = (t = [])"
| "contains (c # cs) t = (starts_with (c # cs) t \<or> contains cs t)"

text \<open>
  The \<^verbatim>\<open>icontains\<close> lookup: the term occurs in the value, letter case aside. The
  comparison is the database's; the case of the ASCII letters is folded, as the
  framework's default database does for \<^verbatim>\<open>LIKE\<close>.
\<close>

definition icontains :: "string \<Rightarrow> string \<Rightarrow> bool" where
  "icontains v t = contains (map lower v) (map lower t)"

text \<open>\<^verbatim>\<open>str.split(sep)\<close>: the pieces between separators, empty ones included.\<close>

fun split_sep :: "char \<Rightarrow> string \<Rightarrow> string \<Rightarrow> string list" where
  "split_sep sep w [] = [rev w]"
| "split_sep sep w (c # cs) =
     (if c = sep then rev w # split_sep sep [] cs else split_sep sep (c # w) cs)"

text \<open>
  The search terms are cut out of the search string by \<^verbatim>\<open>smart_split\<close>, whose pattern
  is
  \<^verbatim>\<open>((?:[^\s'"]*(?:(?:"(?:[^"\\]|\\.)*"|'(?:[^'\\]|\\.)*')[^\s'"]*)+)|\S+)\<close>:
  a token is a run of plain characters (neither whitespace nor a quote) followed by one
  or more groups of a quoted string and a run of plain characters, or else a run of
  characters that are not whitespace. The functions below return what is left of the
  text after the part they match, and \<^verbatim>\<open>None\<close> when they do not match.
\<close>

definition is_quote :: "char \<Rightarrow> bool" where
  "is_quote c = (c = CHR 0x22 \<or> c = CHR 0x27)"

text \<open>
  The rest of a quoted string after its opening quote \<^verbatim>\<open>q\<close>: characters other than
  the quote and the backslash, or a backslash and any character but a newline, up to
  the closing quote.
\<close>

fun quoted_end :: "char \<Rightarrow> string \<Rightarrow> string option" where
  "quoted_end q [] = None"
| "quoted_end q (c # cs) =
     (if c = q then Some cs
      else if c = CHR 0x5C
        then (case cs of [] \<Rightarrow> None | d # ds \<Rightarrow> if d = CHR 0x0A then None else quoted_end q ds)
        else quoted_end q cs)"

definition plain_rest :: "string \<Rightarrow> string" where
  "plain_rest cs = dropWhile (\<lambda>c. \<not> is_space c \<and> \<not> is_quote c) cs"

text \<open>One or more groups of a quoted string and a run of plain characters.\<close>

function quoted_groups :: "string \<Rightarrow> string option" where
  "quoted_groups [] = None"
| "quoted_groups (c # cs) =
     (if is_quote c
      then (case quoted_end c cs of
              None \<Rightarrow> None
            | Some r \<Rightarrow> (case quoted_groups (plain_rest r) of
                           None \<Rightarrow> Some (plain_rest r)
                         | Some r' \<Rightarrow> Some r'))
      else None)"
  by pat_completeness auto
termination
proof (relation "measure length")
  show "wf (measure length)" by simp
next
  fix c :: char and cs r :: string
  assume "is_quote c" and r: "quoted_end c cs = Some r"
  have "quoted_end q xs = Some ys \<Longrightarrow> length ys < length xs" for q xs ys
    by (induction q xs rule: quoted_end.induct) (auto split: if_splits list.splits)
  from this [OF r] have "length r < length cs" .
  moreover have "length (plain_rest r) \<le> length r"
    by (simp add: plain_rest_def length_dropWhile_le)
  ultimately show "(plain_rest r, c # cs) \<in> measure length" by simp
qed

text \<open>
  \<^verbatim>\<open>smart_split\<close>: the tokens of the text, from left to right. Whitespace between
  tokens is skipped; at any other character the first alternative of the pattern is
  tried, and the run up to the next whitespace is the token when it fails.
\<close>

function smart_split :: "string \<Rightarrow> string list" where
  "smart_split [] = []"
| "smart_split (c # cs) =
     (if is_space c then smart_split cs
      else (case quoted_groups (plain_rest (c # cs)) of
              Some rest \<Rightarrow> take (length (c # cs) - length rest) (c # cs) # smart_split rest
            | None \<Rightarrow> takeWhile (\<lambda>x. \<not> is_space x) (c # cs) #
                      smart_split (dropWhile (\<lambda>x. \<not> is_space x) (c # cs))))"
  by pat_completeness auto
termination
proof (relation "measure length")
  show "wf (measure length)" by simp
next
  fix c :: char and cs :: string
  show "(cs, c # cs) \<in> measure length" by simp
next
  fix c :: char and cs rest :: string
  assume "quoted_groups (plain_rest (c # cs)) = Some rest"
  moreover have "quoted_groups xs = Some ys \<Longrightarrow> length ys < length xs" for xs ys
  proof (induction xs arbitrary: ys rule: quoted_groups.induct)
    case 1
    then show ?case by simp
  next
    case (2 c cs)
    have qe: "quoted_end q xs = Some zs \<Longrightarrow> length zs < length xs" for q xs zs
      by (induction q xs rule: quoted_end.induct) (auto split: if_splits list.splits)
    from "2.prems" obtain r where q: "is_quote c" and r: "quoted_end c cs = Some r"
      by (auto split: if_splits option.splits)
    have le: "length (plain_rest r) \<le> length r"
      by (simp add: plain_rest_def length_dropWhile_le)
    show ?case
    proof (cases "quoted_groups (plain_rest r)")
      case None
      with "2.prems" q r have "ys = plain_rest r" by simp
      with qe [OF r] le show ?thesis by simp
    next
      case (Some r')
      with "2.prems" q r have "ys = r'" by simp
      with "2.IH" [OF q r Some] qe [OF r] le show ?thesis by simp
    qed
  qed
  ultimately have "length rest < length (plain_rest (c # cs))" by blast
  also have "\<dots> \<le> length (c # cs)"
    by (simp only: plain_rest_def length_dropWhile_le)
  finally show "(rest, c # cs) \<in> measure length" by simp
next
  fix c :: char and cs :: string
  assume "\<not> is_space c"
  then have "dropWhile (\<lambda>x. \<not> is_space x) (c # cs) = dropWhile (\<lambda>x. \<not> is_space x) cs"
    by simp
  then show "(dropWhile (\<lambda>x. \<not> is_space x) (c # cs), c # cs) \<in> measure length"
    by (simp add: length_dropWhile_le less_Suc_eq_le)
qed

text \<open>\<^verbatim>\<open>term.strip(',')\<close>.\<close>

definition strip_commas :: "string \<Rightarrow> string" where
  "strip_commas s = rev (dropWhile (\<lambda>c. c = CHR '','') (rev (dropWhile (\<lambda>c. c = CHR '','') s)))"

text \<open>\<^verbatim>\<open>str.replace\<close> of the two characters \<^verbatim>\<open>a b\<close> by \<^verbatim>\<open>new\<close>, from left to right.\<close>

fun replace_pair :: "char \<Rightarrow> char \<Rightarrow> string \<Rightarrow> string \<Rightarrow> string" where
  "replace_pair a b new (c # d # cs) =
     (if c = a \<and> d = b then new @ replace_pair a b new cs
      else c # replace_pair a b new (d # cs))"
| "replace_pair a b new cs = cs"

text \<open>
  \<^verbatim>\<open>unescape_string_literal\<close>, which \<^verbatim>\<open>search_smart_split\<close> calls only on a term
  that starts and ends with the same quote: the quotes are dropped, an escaped quote
  becomes the quote and a doubled backslash one backslash.
\<close>

definition unescape_string_literal :: "string \<Rightarrow> string" where
  "unescape_string_literal s =
     (case s of
        [] \<Rightarrow> []
      | quote # body \<Rightarrow>
          replace_pair (CHR 0x5C) (CHR 0x5C) [CHR 0x5C]
            (replace_pair (CHR 0x5C) quote [quote] (butlast body)))"

text \<open>
  The body of the loop of \<^verbatim>\<open>search_smart_split\<close>, for one token: commas are trimmed;
  a quoted phrase is kept together, without its quotes; any other token is split at its
  commas, and the pieces that are not empty are the terms.
\<close>

definition split_term :: "string \<Rightarrow> string list" where
  "split_term token =
     (let term = strip_commas token
      in if term \<noteq> [] \<and> is_quote (hd term) \<and> hd term = last term
         then [unescape_string_literal term]
         else map strip (filter (\<lambda>sub_term. sub_term \<noteq> []) (split_sep CHR '','' [] term)))"

definition search_smart_split :: "string \<Rightarrow> string list" where
  "search_smart_split search_terms = concat (map split_term (smart_split search_terms))"

text \<open>\<^verbatim>\<open>request.query_params.get('search', '')\<close>.\<close>

definition search_param :: "request \<Rightarrow> string" where
  "search_param req = (case query_params req ''search'' of None \<Rightarrow> [] | Some v \<Rightarrow> v)"

text \<open>
  \<^verbatim>\<open>SearchFilter.get_search_terms\<close>: the value of the \<^verbatim>\<open>search\<close> parameter is run
  through a character field that allows blank and does not trim; the field refuses a
  NUL character, and the \<^verbatim>\<open>ValidationError\<close> is the 400 response of its message.
  The cleaned value is split into its terms.
\<close>

definition get_search_terms :: "request \<Rightarrow> response + string list" where
  "get_search_terms req =
     (let value = search_param req
      in if CHR 0x00 \<in> set value
         then Inl (Response 400 (ErrorList [''Null characters are not allowed.'']))
         else Inr (search_smart_split value))"

text \<open>The text a search field names on a book; a name that is no text column has none.\<close>

definition search_value :: "string \<Rightarrow> book \<Rightarrow> string option" where
  "search_value f b =
     (if f = ''title'' then Some (title b)
      else if f = ''description'' then Some (description b)
      else None)"

text \<open>
  \<^verbatim>\<open>SearchFilter.filter_queryset\<close>: the terms are computed first, so a refused search
  string is refused whatever the view's search fields are. Without search fields or
  without terms the queryset passes unchanged; otherwise a row stays when every term
  occurs in at least one of the search fields.
\<close>

definition SearchFilter_filter_queryset :: "view \<Rightarrow> request \<Rightarrow> book list \<Rightarrow> response + book list" where
  "SearchFilter_filter_queryset v req queryset =
     (let fields = search_fields v
      in case get_search_terms req of
           Inl refused \<Rightarrow> Inl refused
         | Inr terms \<Rightarrow>
             if fields = [] \<or> terms = [] then Inr queryset
             else Inr (filter (\<lambda>b. list_all (\<lambda>t. list_ex (\<lambda>f. case search_value f b of
                                                                 None \<Rightarrow> False
                                                               | Some x \<Rightarrow> icontains x t) fields) terms)
                         queryset))"

text \<open>
  Modelled from the spec: the fields of \<^verbatim>\<open>BookSerializer\<close> (\<^verbatim>\<open>serializers.py\<close> is
  not among the sources), which are the names \<^verbatim>\<open>OrderingFilter\<close> accepts. They are the
  fields of the specification's Book.
\<close>

definition ordering_fields :: "string list" where
  "ordering_fields = [''id'', ''title'', ''description'', ''author'', ''category'']"

definition order_by_field :: "string \<Rightarrow> book list \<Rightarrow> book list" where
  "order_by_field f queryset =
     (if f = ''id'' then sort_key book_id queryset
      else if f = ''title'' then sort_key title queryset
      else if f = ''description'' then sort_key description queryset
      else if f = ''author'' then sort_key book_author queryset
      else if f = ''category'' then sort_key book_category queryset
      else queryset)"

text \<open>One term of \<^verbatim>\<open>order_by\<close>: a leading \<^verbatim>\<open>-\<close> reverses the order. Equal keys keep
  their order, so that sorting by the last term first gives the ordering by all terms.\<close>

definition order_by_term :: "string \<Rightarrow> book list \<Rightarrow> book list" where
  "order_by_term t queryset =
     (case t of
        [] \<Rightarrow> queryset
      | c # f \<Rightarrow> if c = CHR ''-'' then rev (order_by_field f (rev queryset))
                 else order_by_field t queryset)"

definition term_valid :: "string \<Rightarrow> bool" where
  "term_valid t = ((case t of [] \<Rightarrow> t | c # f \<Rightarrow> if c = CHR ''-'' then f else t) \<in> set ordering_fields)"

text \<open>\<^verbatim>\<open>OrderingFilter.get_ordering\<close>; the views declare no default ordering.\<close>

definition get_ordering :: "request \<Rightarrow> string list" where
  "get_ordering req =
     (case query_params req ''ordering'' of
        None \<Rightarrow> []
      | Some p \<Rightarrow> if p = [] then [] else filter term_valid (map strip (split_sep CHR '','' [] p)))"

definition OrderingFilter_filter_queryset :: "request \<Rightarrow> book list \<Rightarrow> book list" where
  "OrderingFilter_filter_queryset req queryset = foldr order_by_term (get_ordering req) queryset"

text \<open>The value a \<^verbatim>\<open>filterset_fields\<close> lookup reads off a book, through its references.\<close>

definition related_value :: "store \<Rightarrow> string \<Rightarrow> book \<Rightarrow> string option" where
  "related_value s f b =
     (if f = ''author__name''
        then map_option author_name (find (\<lambda>a. author_id a = book_author b) (authors s))
      else if f = ''category__name''
        then map_option category_name (find (\<lambda>c. category_id c = book_category b) (categories s))
      else None)"

text \<open>
  \<^verbatim>\<open>DjangoFilterBackend.filter_queryset\<close>, the one backend that reads a view's
  \<^verbatim>\<open>filterset_fields\<close>: each declared field that the query gives a non-empty value
  keeps the rows whose value equals it.
\<close>

definition DjangoFilterBackend_filter_queryset ::
  "store \<Rightarrow> view \<Rightarrow> request \<Rightarrow> book list \<Rightarrow> book list" where
  "DjangoFilterBackend_filter_queryset s v req queryset =
     fold (\<lambda>f qs. case query_params req f of
                     None \<Rightarrow> qs
                   | Some x \<Rightarrow> if x = [] then qs else filter (\<lambda>b. related_value s f b = Some x) qs)
          (filterset_fields v) queryset"

fun backend_filter_queryset ::
  "store \<Rightarrow> view \<Rightarrow> request \<Rightarrow> filter_backend \<Rightarrow> book list \<Rightarrow> response + book list" where
  "backend_filter_queryset s v req SearchFilter queryset = SearchFilter_filter_queryset v req queryset"
| "backend_filter_queryset s v req OrderingFilter queryset =
     Inr (OrderingFilter_filter_queryset req queryset)"
| "backend_filter_queryset s v req DjangoFilterBackend queryset =
     Inr (DjangoFilterBackend_filter_queryset s v req queryset)"

text \<open>
  \<^verbatim>\<open>GenericAPIView.filter_queryset\<close>: the view's backends, one after the other; the
  exception of a backend ends the loop.
\<close>

definition filter_queryset ::
  "settings \<Rightarrow> store \<Rightarrow> view \<Rightarrow> request \<Rightarrow> book list \<Rightarrow> response + book list" where
  "filter_queryset cfg s v req queryset =
     fold (\<lambda>backend r. case r of
                          Inl refused \<Rightarrow> Inl refused
                        | Inr qs \<Rightarrow> backend_filter_queryset s v req backend qs)
          (get_filter_backends cfg v) (Inr queryset)"


section \<open>Pagination\<close>

definition is_digit :: "char \<Rightarrow> bool" where
  "is_digit c = (c \<in> set ''0123456789'')"

definition digit_value :: "char \<Rightarrow> nat" where
  "digit_value c = (case map_of (zip ''0123456789'' [0, 1, 2, 3, 4, 5, 6, 7, 8, 9]) c of
                      None \<Rightarrow> 0 | Some d \<Rightarrow> d)"

text \<open>The digits of an integer literal, where one underscore may stand between two digits.\<close>

fun int_literal :: "string \<Rightarrow> bool" where
  "int_literal [] = False"
| "int_literal [c] = is_digit c"
| "int_literal (c # d # cs) =
     (is_digit c \<and> (if d = CHR ''_'' then int_literal cs else int_literal (d # cs)))"

text \<open>Python's \<^verbatim>\<open>int(s)\<close> on a string; \<^verbatim>\<open>None\<close> is its \<^verbatim>\<open>ValueError\<close>.\<close>

definition parse_int :: "string \<Rightarrow> int option" where
  "parse_int s =
     (let t = strip s;
          neg = (t \<noteq> [] \<and> hd t = CHR ''-'');
          r = (if t \<noteq> [] \<and> (hd t = CHR ''-'' \<or> hd t = CHR ''+'') then tl t else t)
      in if int_literal r
         then let n = int (foldl (\<lambda>a c. 10 * a + digit_value c) 0 (filter is_digit r))
              in Some (if neg then - n else n)
         else None)"

text \<open>\<^verbatim>\<open>_positive_int(integer_string, strict, cutoff)\<close>; \<^verbatim>\<open>None\<close> is its \<^verbatim>\<open>ValueError\<close>.\<close>

definition positive_int :: "string \<Rightarrow> bool \<Rightarrow> nat option \<Rightarrow> nat option" where
  "positive_int integer_string strict cutoff =
     (case parse_int integer_string of
        None \<Rightarrow> None
      | Some ret \<Rightarrow>
          if ret < 0 \<or> (ret = 0 \<and> strict) then None
          else (case cutoff of
                  None \<Rightarrow> Some (nat ret)
                | Some c \<Rightarrow> if c = 0 then Some (nat ret) else Some (min (nat ret) c)))"

text \<open>
  \<^verbatim>\<open>PageNumberPagination.get_page_size\<close>: the query parameter when the class names one
  and the request carries a usable value for it (a missing key and a value that is no
  positive integer are both suppressed), the class's \<^verbatim>\<open>page_size\<close> otherwise.
\<close>

definition get_page_size :: "pagination \<Rightarrow> request \<Rightarrow> nat option" where
  "get_page_size p req =
     (case page_size_query_param p of
        None \<Rightarrow> page_size p
      | Some q \<Rightarrow>
          if q = [] then page_size p
          else (case query_params req q of
                  None \<Rightarrow> page_size p
                | Some v \<Rightarrow> (case positive_int v True (max_page_size p) of
                               None \<Rightarrow> page_size p
                             | Some n \<Rightarrow> Some n)))"

text \<open>\<^verbatim>\<open>Paginator.num_pages\<close>: an empty listing still has its first page.\<close>

definition num_pages :: "nat \<Rightarrow> nat \<Rightarrow> nat" where
  "num_pages n per_page = (max 1 n + per_page - 1) div per_page"

text \<open>
  \<^verbatim>\<open>PageNumberPagination.paginate_queryset\<close>. \<^verbatim>\<open>Inr None\<close> is its \<^verbatim>\<open>None\<close> (no page
  size, so no pagination), \<^verbatim>\<open>Inl\<close> the \<^verbatim>\<open>NotFound\<close> raised for a page that is not a
  number or out of range.
\<close>

definition paginate_queryset :: "pagination \<Rightarrow> request \<Rightarrow> book list \<Rightarrow> response + book list option" where
  "paginate_queryset p req queryset =
     (case get_page_size p req of
        None \<Rightarrow> Inr None
      | Some per_page \<Rightarrow>
          if per_page = 0 then Inr None
          else
            let last = num_pages (length queryset) per_page;
                page_number =
                  (case query_params req ''page'' of
                     None \<Rightarrow> Some 1
                   | Some v \<Rightarrow> if v = [] then Some 1
                               else if v = ''last'' then Some (int last)
                               else parse_int v)
            in (case page_number of
                  None \<Rightarrow> Inl (Response 404 (Detail ''Invalid page.''))
                | Some number \<Rightarrow>
                    if number < 1 \<or> int last < number then Inl (Response 404 (Detail ''Invalid page.''))
                    else Inr (Some (take per_page (drop ((nat number - 1) * per_page) queryset)))))"

section \<open>Generic views\<close>

text \<open>
  \<^verbatim>\<open>ListModelMixin.list\<close>: filter, then paginate, then serialize. An exception of the
  filtering is the response.
\<close>

definition ListModelMixin_list :: "settings \<Rightarrow> store \<Rightarrow> view \<Rightarrow> request \<Rightarrow> response" where
  "ListModelMixin_list cfg s v req =
     (case filter_queryset cfg s v req (books s) of
        Inl refused \<Rightarrow> refused
      | Inr queryset \<Rightarrow>
          (case pagination_class v of
             None \<Rightarrow> Response 200 (BookList queryset)
           | Some p \<Rightarrow>
               (case paginate_queryset p req queryset of
                  Inl not_found \<Rightarrow> not_found
                | Inr None \<Rightarrow> Response 200 (BookList queryset)
                | Inr (Some page) \<Rightarrow> Response 200 (Paginated (length queryset) page))))"

text \<open>\<^verbatim>\<open>GenericAPIView.get_object\<close>: the row of that key in the filtered queryset, or 404.\<close>

definition get_object :: "settings \<Rightarrow> store \<Rightarrow> view \<Rightarrow> request \<Rightarrow> nat \<Rightarrow> response + book" where
  "get_object cfg s v req pk =
     (case filter_queryset cfg s v req (books s) of
        Inl refused \<Rightarrow> Inl refused
      | Inr queryset \<Rightarrow>
          (case find (\<lambda>b. book_id b = pk) queryset of
             None \<Rightarrow> Inl (Response 404 (Detail ''Not found.''))
           | Some b \<Rightarrow> Inr b))"

definition RetrieveModelMixin_retrieve :: "settings \<Rightarrow> store \<Rightarrow> view \<Rightarrow> request \<Rightarrow> nat \<Rightarrow> response" where
  "RetrieveModelMixin_retrieve cfg s v req pk =
     (case get_object cfg s v req pk of
        Inl not_found \<Rightarrow> not_found
      | Inr b \<Rightarrow> Response 200 (BookData b))"

text \<open>The key the table gives a new row.\<close>

definition next_id :: "nat list \<Rightarrow> nat" where
  "next_id ids = Suc (fold max ids 0)"

text \<open>
  A book row is written only when its two references resolve: the store enforces
  referential integrity and refuses the write with \<^verbatim>\<open>IntegrityError\<close> otherwise.
\<close>

definition references_ok :: "store \<Rightarrow> book \<Rightarrow> bool" where
  "references_ok s b =
     (book_author b \<in> author_id ` set (authors s) \<and>
      book_category b \<in> category_id ` set (categories s))"

definition Book_insert :: "store \<Rightarrow> book \<Rightarrow> db_error + (book \<times> store)" where
  "Book_insert s v =
     (if references_ok s v
      then let b = v\<lparr>book_id := next_id (map book_id (books s))\<rparr>
           in Inr (b, s\<lparr>books := books s @ [b]\<rparr>)
      else Inl IntegrityError)"

definition Book_update :: "store \<Rightarrow> nat \<Rightarrow> book \<Rightarrow> db_error + (book \<times> store)" where
  "Book_update s pk v =
     (if references_ok s v
      then let b = v\<lparr>book_id := pk\<rparr>
           in Inr (b, s\<lparr>books := map (\<lambda>x. if book_id x = pk then b else x) (books s)\<rparr>)
      else Inl IntegrityError)"

definition Book_delete :: "store \<Rightarrow> nat \<Rightarrow> store" where
  "Book_delete s pk = s\<lparr>books := filter (\<lambda>x. book_id x \<noteq> pk) (books s)\<rparr>"

text \<open>
  \<^verbatim>\<open>BookSerializer\<close> is declared in \<^verbatim>\<open>serializers.py\<close>, which is not among the
  sources, so the views take its validation as a parameter: from the store, the instance
  being updated (if any), the \<^verbatim>\<open>partial\<close> flag and the request data to either the
  errors by field or the validated field values of the book.
\<close>

type_synonym book_serializer = "store \<Rightarrow> book option \<Rightarrow> bool \<Rightarrow> params \<Rightarrow> errors + book"

text \<open>
  \<^verbatim>\<open>CreateModelMixin.create\<close>, which \<^verbatim>\<open>BookViewSet.create\<close> spells out:
  \<^verbatim>\<open>is_valid(raise_exception=True)\<close> leaves with the 400 response of the errors
  before \<^verbatim>\<open>save\<close> is reached.
\<close>

definition CreateModelMixin_create :: "book_serializer \<Rightarrow> store \<Rightarrow> request \<Rightarrow> response \<times> store" where
  "CreateModelMixin_create is_valid s req =
     (case is_valid s None False (data req) of
        Inl errs \<Rightarrow> (Response 400 (Errors errs), s)
      | Inr v \<Rightarrow>
          (case Book_insert s v of
             Inl e \<Rightarrow> (Response 500 (Detail ''IntegrityError''), s)
           | Inr (b, s') \<Rightarrow> (Response 201 (BookData b), s')))"

text \<open>\<^verbatim>\<open>UpdateModelMixin.update\<close>, with \<^verbatim>\<open>partial\<close> set by \<^verbatim>\<open>partial_update\<close>.\<close>

definition UpdateModelMixin_update ::
  "settings \<Rightarrow> book_serializer \<Rightarrow> store \<Rightarrow> view \<Rightarrow> request \<Rightarrow> nat \<Rightarrow> bool \<Rightarrow> response \<times> store" where
  "UpdateModelMixin_update cfg is_valid s v req pk partial =
     (case get_object cfg s v req pk of
        Inl not_found \<Rightarrow> (not_found, s)
      | Inr instance \<Rightarrow>
          (case is_valid s (Some instance) partial (data req) of
             Inl errs \<Rightarrow> (Response 400 (Errors errs), s)
           | Inr validated \<Rightarrow>
               (case Book_update s pk validated of
                  Inl e \<Rightarrow> (Response 500 (Detail ''IntegrityError''), s)
                | Inr (b, s') \<Rightarrow> (Response 200 (BookData b), s'))))"

definition DestroyModelMixin_destroy ::
  "settings \<Rightarrow> store \<Rightarrow> view \<Rightarrow> request \<Rightarrow> nat \<Rightarrow> response \<times> store" where
  "DestroyModelMixin_destroy cfg s v req pk =
     (case get_object cfg s v req pk of
        Inl not_found \<Rightarrow> (not_found, s)
      | Inr instance \<Rightarrow> (Response 204 NoContent, Book_delete s pk))"

section \<open>The Book views\<close>

definition BookViewSet_list :: "settings \<Rightarrow> store \<Rightarrow> request \<Rightarrow> response" where
  "BookViewSet_list cfg s req = ListModelMixin_list cfg s BookViewSet req"

definition BookViewSet_create :: "book_serializer \<Rightarrow> store \<Rightarrow> request \<Rightarrow> response \<times> store" where
  "BookViewSet_create is_valid s req =
     (case is_valid s None False (data req) of
        Inl errs \<Rightarrow> (Response 400 (Errors errs), s)
      | Inr v \<Rightarrow>
          (case Book_insert s v of
             Inl e \<Rightarrow> (Response 500 (Detail ''IntegrityError''), s)
           | Inr (b, s') \<Rightarrow> (Response 201 (BookData b), s')))"

definition BookViewSet_retrieve :: "settings \<Rightarrow> store \<Rightarrow> request \<Rightarrow> nat \<Rightarrow> response" where
  "BookViewSet_retrieve cfg s req pk = RetrieveModelMixin_retrieve cfg s BookViewSet req pk"

definition BookViewSet_update ::
  "settings \<Rightarrow> book_serializer \<Rightarrow> store \<Rightarrow> request \<Rightarrow> nat \<Rightarrow> bool \<Rightarrow> response \<times> store" where
  "BookViewSet_update cfg is_valid s req pk partial =
     UpdateModelMixin_update cfg is_valid s BookViewSet req pk partial"

definition BookViewSet_destroy :: "settings \<Rightarrow> store \<Rightarrow> request \<Rightarrow> nat \<Rightarrow> response \<times> store" where
  "BookViewSet_destroy cfg s req pk = DestroyModelMixin_destroy cfg s BookViewSet req pk"

text \<open>
  The actions the router maps the HTTP methods of the two \<^verbatim>\<open>BookViewSet\<close> routes to
  (\<^verbatim>\<open>PATCH\<close> is \<^verbatim>\<open>partial_update\<close>, which calls \<^verbatim>\<open>update\<close>), and
  \<^verbatim>\<open>APIView.dispatch\<close>: \<^verbatim>\<open>initial\<close> runs before the handler, and its exception is
  the response.
\<close>

datatype action = List | Create | Retrieve nat | Update nat | PartialUpdate nat | Destroy nat

definition BookViewSet_dispatch ::
  "settings \<Rightarrow> book_serializer \<Rightarrow> store \<Rightarrow> action \<Rightarrow> request \<Rightarrow> response \<times> store" where
  "BookViewSet_dispatch cfg is_valid s a req =
     (case initial cfg BookViewSet s req of
        Inl denied \<Rightarrow> (denied, s)
      | Inr caller \<Rightarrow>
          (case a of
             List \<Rightarrow> (BookViewSet_list cfg s req, s)
           | Create \<Rightarrow> BookViewSet_create is_valid s req
           | Retrieve pk \<Rightarrow> (BookViewSet_retrieve cfg s req pk, s)
           | Update pk \<Rightarrow> BookViewSet_update cfg is_valid s req pk False
           | PartialUpdate pk \<Rightarrow> BookViewSet_update cfg is_valid s req pk True
           | Destroy pk \<Rightarrow> BookViewSet_destroy cfg s req pk))"

text \<open>\<^verbatim>\<open>BookDetailView\<close>, a \<^verbatim>\<open>RetrieveAPIView\<close>: \<^verbatim>\<open>GET\<close> is \<^verbatim>\<open>retrieve\<close>.\<close>

definition BookDetailView_get :: "settings \<Rightarrow> store \<Rightarrow> request \<Rightarrow> nat \<Rightarrow> response \<times> store" where
  "BookDetailView_get cfg s req pk =
     (case initial cfg BookDetailView s req of
        Inl denied \<Rightarrow> (denied, s)
      | Inr caller \<Rightarrow> (RetrieveModelMixin_retrieve cfg s BookDetailView req pk, s))"

text \<open>\<^verbatim>\<open>BookCreateView\<close>, a \<^verbatim>\<open>CreateAPIView\<close>: \<^verbatim>\<open>POST\<close> is \<^verbatim>\<open>create\<close>.\<close>

definition BookCreateView_post :: "settings \<Rightarrow> book_serializer \<Rightarrow> store \<Rightarrow> request \<Rightarrow> response \<times> store" where
  "BookCreateView_post cfg is_valid s req =
     (case initial cfg BookCreateView s req of
        Inl denied \<Rightarrow> (denied, s)
      | Inr caller \<Rightarrow> CreateModelMixin_create is_valid s req)"

text \<open>
  \<^verbatim>\<open>BookListView.list\<close>: all authors, all categories and the filtered books, handed to
  the template in one context. Nothing here calls \<^verbatim>\<open>paginate_queryset\<close>. An
  exception of the filtering is the response.
\<close>

definition BookListView_list :: "settings \<Rightarrow> store \<Rightarrow> request \<Rightarrow> response" where
  "BookListView_list cfg s req =
     (let authors = authors s;
          categories = categories s
      in case filter_queryset cfg s BookListView req (books s) of
           Inl refused \<Rightarrow> refused
         | Inr queryset \<Rightarrow>
             Response 200 (Rendered ''bookstore_app/book_list.html'' authors categories queryset))"

definition BookListView_get :: "settings \<Rightarrow> store \<Rightarrow> request \<Rightarrow> response \<times> store" where
  "BookListView_get cfg s req =
     (case initial cfg BookListView s req of
        Inl denied \<Rightarrow> (denied, s)
      | Inr caller \<Rightarrow> (BookListView_list cfg s req, s))"

section \<open>Registration\<close>

text \<open>
  \<^verbatim>\<open>UserSerializer\<close> is declared in \<^verbatim>\<open>serializers.py\<close> as well; the view takes its
  validation as a parameter, from the store and the request data to the errors by field
  or the validated user.
\<close>

type_synonym user_serializer = "store \<Rightarrow> params \<Rightarrow> errors + user"

text \<open>The user table holds one row per username; a second one is refused.\<close>

definition User_insert :: "store \<Rightarrow> user \<Rightarrow> db_error + (user \<times> store)" where
  "User_insert s v =
     (if username v \<in> username ` set (users s) then Inl IntegrityError
      else let u = v\<lparr>user_id := next_id (map user_id (users s))\<rparr>
           in Inr (u, s\<lparr>users := users s @ [u]\<rparr>))"

text \<open>\<^verbatim>\<open>UserRegistrationView.create\<close>.\<close>

definition UserRegistrationView_create :: "user_serializer \<Rightarrow> store \<Rightarrow> request \<Rightarrow> response \<times> store" where
  "UserRegistrationView_create is_valid s req =
     (case is_valid s (data req) of
        Inl errs \<Rightarrow> (Response 400 (Errors errs), s)
      | Inr v \<Rightarrow>
          (case User_insert s v of
             Inl e \<Rightarrow> (Response 500 (Detail ''IntegrityError''), s)
           | Inr (u, s') \<Rightarrow>
               (Response 201 (Dict [(''user_id'', JNum (user_id u)),
                                    (''username'', JStr (username u))]), s')))"

definition UserRegistrationView_post :: "settings \<Rightarrow> user_serializer \<Rightarrow> store \<Rightarrow> request \<Rightarrow> response \<times> store" where
  "UserRegistrationView_post cfg is_valid s req =
     (case initial cfg UserRegistrationView s req of
        Inl denied \<Rightarrow> (denied, s)
      | Inr caller \<Rightarrow> UserRegistrationView_create is_valid s req)"


section \<open>The serializers, from the specification\<close>

definition field_errors :: "string \<Rightarrow> string list + 'a \<Rightarrow> errors" where
  "field_errors name r = (case r of Inl e \<Rightarrow> [(name, e)] | Inr x \<Rightarrow> [])"

text \<open>With \<^verbatim>\<open>partial\<close>, a field the data leaves out keeps the instance's value.\<close>

definition run_field ::
  "bool \<Rightarrow> 'a option \<Rightarrow> (string option \<Rightarrow> string list + 'a) \<Rightarrow> string option \<Rightarrow> string list + 'a" where
  "run_field partial current field v =
     (case (partial, v, current) of
        (True, None, Some x) \<Rightarrow> Inr x
      | _ \<Rightarrow> field v)"

text \<open>A reference by primary key: the key must parse and must be one of the table's.\<close>

definition PrimaryKeyRelatedField :: "nat list \<Rightarrow> string option \<Rightarrow> string list + nat" where
  "PrimaryKeyRelatedField pks v =
     (case v of
        None \<Rightarrow> Inl [''This field is required.'']
      | Some d \<Rightarrow>
          (case parse_int d of
             None \<Rightarrow> Inl [''Incorrect type. Expected pk value, received str.'']
           | Some i \<Rightarrow>
               if 0 \<le> i \<and> nat i \<in> set pks then Inr (nat i)
               else Inl [''Invalid pk '' @ d @ '' - object does not exist.'']))"

text \<open>
  Modelled from the spec: the validation of \<^verbatim>\<open>BookSerializer\<close>, whose declaration
  (\<^verbatim>\<open>serializers.py\<close>) is not among the sources. The specification has the
  serialization layer enforce field presence and type, has every Book reference one
  existing Author and one existing Category, and has invalid payloads answered with the
  errors by field. The four fields of the specification's Book are checked, all of them,
  and every failure is reported under its field.
\<close>

definition BookSerializer :: book_serializer where
  "BookSerializer s instance partial d =
     (let t = run_field partial (map_option title instance) (CharField True) (d ''title'');
          ds = run_field partial (map_option description instance) (CharField True) (d ''description'');
          a = run_field partial (map_option book_author instance)
                (PrimaryKeyRelatedField (map author_id (authors s))) (d ''author'');
          c = run_field partial (map_option book_category instance)
                (PrimaryKeyRelatedField (map category_id (categories s))) (d ''category'')
      in case (t, ds, a, c) of
           (Inr t', Inr ds', Inr a', Inr c') \<Rightarrow>
             Inr \<lparr>book_id = (case instance of None \<Rightarrow> 0 | Some b \<Rightarrow> book_id b),
                  title = t', description = ds', book_author = a', book_category = c'\<rparr>
         | _ \<Rightarrow> Inl (field_errors ''title'' t @ field_errors ''description'' ds @
                      field_errors ''author'' a @ field_errors ''category'' c))"

definition EmailField :: "string option \<Rightarrow> string list + string" where
  "EmailField v =
     (case CharField True v of
        Inl e \<Rightarrow> Inl e
      | Inr x \<Rightarrow>
          (case split_sep CHR ''@'' [] x of
             [name, domain] \<Rightarrow>
               if name \<noteq> [] \<and> domain \<noteq> [] then Inr x else Inl [''Enter a valid email address.'']
           | _ \<Rightarrow> Inl [''Enter a valid email address.'']))"

definition UsernameField :: "store \<Rightarrow> string option \<Rightarrow> string list + string" where
  "UsernameField s v =
     (case CharField True v of
        Inl e \<Rightarrow> Inl e
      | Inr x \<Rightarrow>
          if x \<in> username ` set (users s) then Inl [''A user with that username already exists.'']
          else Inr x)"

text \<open>
  Modelled from the spec: the validation of \<^verbatim>\<open>UserSerializer\<close>, whose declaration
  (\<^verbatim>\<open>serializers.py\<close>) is not among the sources. The specification has registration
  accept username, email and password, validate format and uniqueness, and report the
  errors by field; the password is stored as the framework's hasher
  (\<^verbatim>\<open>make_password\<close>, a parameter) returns it.
\<close>

definition UserSerializer :: "(string \<Rightarrow> string) \<Rightarrow> user_serializer" where
  "UserSerializer make_password s d =
     (let n = UsernameField s (d ''username'');
          e = EmailField (d ''email'');
          p = CharField False (d ''password'')
      in case (n, e, p) of
           (Inr n', Inr e', Inr p') \<Rightarrow>
             Inr \<lparr>user_id = 0, username = n', email = e', password = make_password p',
                  is_active = True\<rparr>
         | _ \<Rightarrow> Inl (field_errors ''username'' n @ field_errors ''email'' e @
                      field_errors ''password'' p))"

section \<open>A small catalog\<close>

text \<open>One store and a few requests, on which the theorems below are exercised.\<close>

definition tolstoy :: author where
  "tolstoy = \<lparr>author_id = 1, author_name = ''Leo Tolstoy''\<rparr>"

definition austen :: author where
  "austen = \<lparr>author_id = 2, author_name = ''Jane Austen''\<rparr>"

definition novels :: category where
  "novels = \<lparr>category_id = 1, category_name = ''Novels''\<rparr>"

definition war_and_peace :: book where
  "war_and_peace = \<lparr>book_id = 1, title = ''War and Peace'',
     description = ''Five families during the Napoleonic era'', book_author = 1, book_category = 1\<rparr>"

definition emma :: book where
  "emma = \<lparr>book_id = 2, title = ''Emma'',
     description = ''A comedy of manners; no war, some peace'', book_author = 2, book_category = 1\<rparr>"

definition alice :: user where
  "alice = \<lparr>user_id = 1, username = ''alice'', email = ''alice@example.org'',
            password = ''wonderland'', is_active = True\<rparr>"

definition alice_token :: token where
  "alice_token = \<lparr>key = ''9944b09199c62bcf'', token_user = 1\<rparr>"

definition demo_store :: store where
  "demo_store = \<lparr>authors = [tolstoy, austen], categories = [novels],
                  books = [war_and_peace, emma], users = [alice], tokens = []\<rparr>"

definition logged_in_store :: store where
  "logged_in_store = demo_store\<lparr>tokens := [alice_token]\<rparr>"

text \<open>A password check that compares the raw password with the stored one, and the hasher
  that goes with it.\<close>

definition plain_check :: "string \<Rightarrow> string \<Rightarrow> bool" where
  "plain_check raw stored = (raw = stored)"

definition plain_hash :: "string \<Rightarrow> string" where
  "plain_hash raw = raw"

definition anonymous :: request where
  "anonymous = \<lparr>auth_token = None, query_params = Map.empty, data = Map.empty\<rparr>"


definition alice_login :: params where
  "alice_login = [''username'' \<mapsto> ''alice'', ''password'' \<mapsto> ''wonderland'']"

definition mallory_login :: params where
  "mallory_login = [''username'' \<mapsto> ''mallory'', ''password'' \<mapsto> ''wonderland'']"

definition alice_wrong_password :: params where
  "alice_wrong_password = [''username'' \<mapsto> ''alice'', ''password'' \<mapsto> ''looking-glass'']"

definition login_rejection :: errors where
  "login_rejection = [(''non_field_errors'', [''Unable to log in with provided credentials.''])]"


definition ghost_author_book :: request where
  "ghost_author_book = \<lparr>auth_token = Some ''9944b09199c62bcf'', query_params = Map.empty,
     data = [''title'' \<mapsto> ''Dead Souls'', ''description'' \<mapsto> ''A poem in prose'',
             ''author'' \<mapsto> ''99'', ''category'' \<mapsto> ''1'']\<rparr>"

definition blank_title :: request where
  "blank_title = \<lparr>auth_token = Some ''9944b09199c62bcf'', query_params = Map.empty,
     data = [''title'' \<mapsto> '' '']\<rparr>"

definition register_bob :: request where
  "register_bob = \<lparr>auth_token = None, query_params = Map.empty,
     data = [''username'' \<mapsto> ''bob'', ''email'' \<mapsto> ''bob@example.org'',
             ''password'' \<mapsto> ''builder'']\<rparr>"

definition register_alice_again :: request where
  "register_alice_again = \<lparr>auth_token = None, query_params = Map.empty,
     data = [''username'' \<mapsto> ''alice'', ''email'' \<mapsto> ''other@example.org'',
             ''password'' \<mapsto> ''rabbit'']\<rparr>"

definition bob :: user where
  "bob = \<lparr>user_id = 2, username = ''bob'', email = ''bob@example.org'', password = ''builder'',
          is_active = True\<rparr>"

definition strict_settings :: settings where
  "strict_settings = \<lparr>DEFAULT_PERMISSION_CLASSES = [IsAuthenticated], DEFAULT_FILTER_BACKENDS = []\<rparr>"

definition new_book_anonymous :: request where
  "new_book_anonymous = \<lparr>auth_token = None, query_params = Map.empty,
     data = [''title'' \<mapsto> ''Persuasion'', ''description'' \<mapsto> ''A second chance'',
             ''author'' \<mapsto> ''2'', ''category'' \<mapsto> ''1'']\<rparr>"

definition persuasion :: book where
  "persuasion = \<lparr>book_id = 3, title = ''Persuasion'', description = ''A second chance'',
                 book_author = 2, book_category = 1\<rparr>"

definition stale_token :: request where
  "stale_token = \<lparr>auth_token = Some ''ffffffffffffffff'', query_params = Map.empty,
                  data = Map.empty\<rparr>"

definition austen_only :: request where
  "austen_only = \<lparr>auth_token = Some ''9944b09199c62bcf'',
     query_params = [''author__name'' \<mapsto> ''Jane Austen''], data = Map.empty\<rparr>"




definition war_peace_search :: request where
  "war_peace_search = \<lparr>auth_token = Some ''9944b09199c62bcf'',
     query_params = [''search'' \<mapsto> ''war peace''], data = Map.empty\<rparr>"

definition napoleonic_search :: request where
  "napoleonic_search = \<lparr>auth_token = Some ''9944b09199c62bcf'',
     query_params = [''search'' \<mapsto> ''NAPOLEONIC''], data = Map.empty\<rparr>"

definition phrase_search :: request where
  "phrase_search = \<lparr>auth_token = Some ''9944b09199c62bcf'',
     query_params = [''search'' \<mapsto> CHR 0x22 # ''war and'' @ [CHR 0x22]], data = Map.empty\<rparr>"

definition nul_search :: request where
  "nul_search = \<lparr>auth_token = None,
     query_params = [''search'' \<mapsto> ''war'' @ [CHR 0x00]], data = Map.empty\<rparr>"

definition search_by_default :: settings where
  "search_by_default = \<lparr>DEFAULT_PERMISSION_CLASSES = [AllowAny], DEFAULT_FILTER_BACKENDS = [SearchFilter]\<rparr>"

section \<open>Login: the token is created once and reused\<close>

lemma is_valid_users:
  assumes "users s' = users s"
  shows "AuthTokenSerializer_is_valid chk s' d = AuthTokenSerializer_is_valid chk s d"
proof -
  from assms have "authenticate chk s' = authenticate chk s"
    by (intro ext) (simp add: authenticate_def)
  then show ?thesis
    by (simp add: AuthTokenSerializer_is_valid_def split: sum.splits)
qed

lemma find_append_new:
  "find P xs = None \<Longrightarrow> P x \<Longrightarrow> find P (xs @ [x]) = Some x"
  by (induction xs) (auto split: if_splits)

text \<open>
  C5. When a login succeeds, every later login with the same data succeeds with the very
  same response, token included, and leaves the store as the first login left it,
  whatever key the generator would draw the second time. The token of the response is
  the user's row of the token table: the one that was there before the first login, or,
  when there was none, the row the first login inserted under the key drawn then.
\<close>

theorem login_twice_same_token:
  assumes first: "UserLoginView_post chk k1 s d = (Response 200 b, s1)"
  shows "UserLoginView_post chk k2 s1 d = (Response 200 b, s1) \<and>
         (\<exists>u t. AuthTokenSerializer_is_valid chk s d = Inr u \<and>
                find (\<lambda>t. token_user t = user_id u) (tokens s1) = Some t \<and>
                b = Dict [(''user_id'', JNum (user_id u)), (''username'', JStr (username u)),
                          (''email'', JStr (email u)), (''token'', JStr (key t))] \<and>
                (case find (\<lambda>t. token_user t = user_id u) (tokens s) of
                   None \<Rightarrow> key t = k1 \<and> s1 = s\<lparr>tokens := tokens s @ [t]\<rparr>
                 | Some t' \<Rightarrow> t = t' \<and> s1 = s))"
proof -
  from first obtain u where u: "AuthTokenSerializer_is_valid chk s d = Inr u"
    by (auto simp: UserLoginView_post_def split: sum.splits)
  from first u obtain t c where goc: "Token_get_or_create k1 s u = Inr (t, c, s1)"
    and b: "b = Dict [(''user_id'', JNum (user_id u)), (''username'', JStr (username u)),
                      (''email'', JStr (email u)), (''token'', JStr (key t))]"
    by (auto simp: UserLoginView_post_def split: sum.splits)
  let ?P = "\<lambda>t. token_user t = user_id u"
  have us: "users s1 = users s"
    using goc by (auto simp: Token_get_or_create_def Let_def split: option.splits if_splits)
  have found: "find ?P (tokens s1) = Some t"
    using goc
    by (auto simp: Token_get_or_create_def Let_def find_append_new split: option.splits if_splits)
  have origin: "(case find ?P (tokens s) of
                   None \<Rightarrow> key t = k1 \<and> s1 = s\<lparr>tokens := tokens s @ [t]\<rparr>
                 | Some t' \<Rightarrow> t = t' \<and> s1 = s)"
    using goc by (auto simp: Token_get_or_create_def Let_def split: option.splits if_splits)
  have again: "Token_get_or_create k2 s1 u = Inr (t, False, s1)"
    using found by (simp add: Token_get_or_create_def)
  have "UserLoginView_post chk k2 s1 d = (Response 200 b, s1)"
    using u again b by (simp add: UserLoginView_post_def is_valid_users [OF us])
  with u found b origin show ?thesis by blast
qed

theorem login_twice_same_token_witness:
  "UserLoginView_post plain_check ''9944b09199c62bcf'' demo_store alice_login =
     (Response 200 (Dict [(''user_id'', JNum 1), (''username'', JStr ''alice''),
                          (''email'', JStr ''alice@example.org''),
                          (''token'', JStr ''9944b09199c62bcf'')]), logged_in_store) \<and>
   UserLoginView_post plain_check ''0123456789abcdef'' logged_in_store alice_login =
     (Response 200 (Dict [(''user_id'', JNum 1), (''username'', JStr ''alice''),
                          (''email'', JStr ''alice@example.org''),
                          (''token'', JStr ''9944b09199c62bcf'')]), logged_in_store)"
proof -
  have first: "UserLoginView_post plain_check ''9944b09199c62bcf'' demo_store alice_login =
     (Response 200 (Dict [(''user_id'', JNum 1), (''username'', JStr ''alice''),
                          (''email'', JStr ''alice@example.org''),
                          (''token'', JStr ''9944b09199c62bcf'')]), logged_in_store)"
    by code_simp
  from login_twice_same_token [OF first, of "''0123456789abcdef''"] first show ?thesis by simp
qed

section \<open>Login: what a failed login answers and leaves behind\<close>

text \<open>
  C9. A login whose validation fails is answered with status 400 and exactly the
  serializer's errors. When both fields are supplied and the credentials are refused,
  those errors are one fixed message under \<^verbatim>\<open>non_field_errors\<close>: the same whether the
  username is unknown or the password is wrong, so the answer tells neither.
\<close>

theorem login_failure_response:
  "(\<forall>errs. AuthTokenSerializer_is_valid chk s d = Inl errs \<longrightarrow>
      fst (UserLoginView_post chk k s d) = Response 400 (Errors errs)) \<and>
   (\<forall>uname pw. CharField True (d ''username'') = Inr uname \<and>
      CharField False (d ''password'') = Inr pw \<and> authenticate chk s uname pw = None \<longrightarrow>
      fst (UserLoginView_post chk k s d) = Response 400 (Errors login_rejection))"
  by (simp add: UserLoginView_post_def AuthTokenSerializer_is_valid_def login_rejection_def)

theorem login_failure_response_witness:
  "find (\<lambda>u. username u = ''mallory'') (users demo_store) = None \<and>
   find (\<lambda>u. username u = ''alice'') (users demo_store) = Some alice \<and>
   authenticate plain_check demo_store ''mallory'' ''wonderland'' = None \<and>
   authenticate plain_check demo_store ''alice'' ''looking-glass'' = None \<and>
   fst (UserLoginView_post plain_check ''9944b09199c62bcf'' demo_store mallory_login) =
     Response 400 (Errors login_rejection) \<and>
   fst (UserLoginView_post plain_check ''9944b09199c62bcf'' demo_store alice_wrong_password) =
     Response 400 (Errors login_rejection)"
proof -
  have u1: "CharField True (mallory_login ''username'') = Inr ''mallory''"
    and p1: "CharField False (mallory_login ''password'') = Inr ''wonderland''"
    and a1: "authenticate plain_check demo_store ''mallory'' ''wonderland'' = None"
    and u2: "CharField True (alice_wrong_password ''username'') = Inr ''alice''"
    and p2: "CharField False (alice_wrong_password ''password'') = Inr ''looking-glass''"
    and a2: "authenticate plain_check demo_store ''alice'' ''looking-glass'' = None"
    and f1: "find (\<lambda>u. username u = ''mallory'') (users demo_store) = None"
    and f2: "find (\<lambda>u. username u = ''alice'') (users demo_store) = Some alice"
    by code_simp+
  from login_failure_response [of plain_check demo_store mallory_login "''9944b09199c62bcf''"]
    u1 p1 a1
  have r1: "fst (UserLoginView_post plain_check ''9944b09199c62bcf'' demo_store mallory_login) =
     Response 400 (Errors login_rejection)" by blast
  from login_failure_response [of plain_check demo_store alice_wrong_password "''9944b09199c62bcf''"]
    u2 p2 a2
  have r2: "fst (UserLoginView_post plain_check ''9944b09199c62bcf'' demo_store alice_wrong_password) =
     Response 400 (Errors login_rejection)" by blast
  from a1 a2 f1 f2 r1 r2 show ?thesis by simp
qed

text \<open>
  C10. A login whose validation fails leaves the store as it was: no token row is
  inserted or changed, and nothing else is written.
\<close>

theorem failed_login_store_unchanged:
  "AuthTokenSerializer_is_valid chk s d = Inl errs \<Longrightarrow> snd (UserLoginView_post chk k s d) = s"
  by (simp add: UserLoginView_post_def)

theorem failed_login_store_unchanged_witness:
  "AuthTokenSerializer_is_valid plain_check demo_store alice_wrong_password = Inl login_rejection \<and>
   snd (UserLoginView_post plain_check ''9944b09199c62bcf'' demo_store alice_wrong_password) = demo_store \<and>
   tokens demo_store = []"
proof -
  have h: "AuthTokenSerializer_is_valid plain_check demo_store alice_wrong_password = Inl login_rejection"
    by code_simp
  have t: "tokens demo_store = []" by code_simp
  from failed_login_store_unchanged [OF h] h t show ?thesis by simp
qed

section \<open>Book create and update: validation comes before the write\<close>

text \<open>
  C6. Whatever the serializer's validation is: when it refuses the data of a create, the
  answer is status 400 with exactly its errors by field and the store is as before; the
  same holds for an update (full or partial) of a book that \<^verbatim>\<open>get_object\<close> finds.
\<close>

theorem book_write_validates_first:
  "(\<forall>errs. is_valid s None False (data req) = Inl errs \<longrightarrow>
      BookViewSet_create is_valid s req = (Response 400 (Errors errs), s)) \<and>
   (\<forall>b errs. get_object cfg s BookViewSet req pk = Inr b \<and>
      is_valid s (Some b) partial (data req) = Inl errs \<longrightarrow>
      BookViewSet_update cfg is_valid s req pk partial = (Response 400 (Errors errs), s))"
  by (simp add: BookViewSet_create_def BookViewSet_update_def UpdateModelMixin_update_def)

theorem book_write_validates_first_witness:
  "BookSerializer logged_in_store None False (data ghost_author_book) =
     Inl [(''author'', [''Invalid pk 99 - object does not exist.''])] \<and>
   BookViewSet_create BookSerializer logged_in_store ghost_author_book =
     (Response 400 (Errors [(''author'', [''Invalid pk 99 - object does not exist.''])]),
      logged_in_store) \<and>
   get_object framework_defaults logged_in_store BookViewSet blank_title 2 = Inr emma \<and>
   BookViewSet_update framework_defaults BookSerializer logged_in_store blank_title 2 True =
     (Response 400 (Errors [(''title'', [''This field may not be blank.''])]), logged_in_store)"
proof -
  have c: "BookSerializer logged_in_store None False (data ghost_author_book) =
     Inl [(''author'', [''Invalid pk 99 - object does not exist.''])]"
    by code_simp
  have g: "get_object framework_defaults logged_in_store BookViewSet blank_title 2 = Inr emma"
    by code_simp
  have u: "BookSerializer logged_in_store (Some emma) True (data blank_title) =
     Inl [(''title'', [''This field may not be blank.''])]"
    by code_simp
  from book_write_validates_first
    [of BookSerializer logged_in_store ghost_author_book framework_defaults 2 True] c
  have r1: "BookViewSet_create BookSerializer logged_in_store ghost_author_book =
     (Response 400 (Errors [(''author'', [''Invalid pk 99 - object does not exist.''])]),
      logged_in_store)"
    by blast
  from book_write_validates_first
    [of BookSerializer logged_in_store blank_title framework_defaults 2 True] g u
  have r2: "BookViewSet_update framework_defaults BookSerializer logged_in_store blank_title 2 True =
     (Response 400 (Errors [(''title'', [''This field may not be blank.''])]), logged_in_store)"
    by blast
  from c g r1 r2 show ?thesis by simp
qed

section \<open>Registration\<close>

lemma fold_max_upper: "x \<in> set ids \<Longrightarrow> x \<le> fold max ids (m::nat)"
proof (induction ids arbitrary: m)
  case Nil
  then show ?case by simp
next
  case (Cons i ids)
  have mono: "\<And>a. a \<le> fold max ids (a::nat)"
  proof -
    fix a :: nat
    show "a \<le> fold max ids a"
      by (induction ids arbitrary: a) (auto intro: order_trans [OF max.cobounded2])
  qed
  from Cons show ?case
    by (auto intro: order_trans [OF max.cobounded1 mono])
qed

lemma next_id_fresh: "next_id ids \<notin> set ids"
proof
  assume "next_id ids \<in> set ids"
  then have "next_id ids \<le> fold max ids 0" by (rule fold_max_upper)
  then show False by (simp add: next_id_def)
qed

lemma UserSerializer_Inr:
  assumes "UserSerializer mk s d = Inr v"
  shows "username v \<notin> username ` set (users s)"
  using assms
  by (auto simp: UserSerializer_def UsernameField_def Let_def split: sum.splits if_splits)

lemma UserSerializer_Inl:
  assumes "UserSerializer mk s d = Inl errs"
  shows "errs \<noteq> []"
  using assms
  by (auto simp: UserSerializer_def field_errors_def Let_def split: sum.splits)

lemma UserSerializer_duplicate:
  assumes "CharField True (d ''username'') = Inr n" and "n \<in> username ` set (users s)"
  shows "\<exists>errs. UserSerializer mk s d = Inl errs \<and>
           (''username'', [''A user with that username already exists.'']) \<in> set errs"
  using assms
  by (auto simp: UserSerializer_def UsernameField_def field_errors_def Let_def split: sum.splits)

text \<open>
  C7. Registration with the serializer of the specification. Valid data adds one user
  row, under a key and a name that no row had, and the answer is status 201 with that
  row's key and name. Invalid data is answered with status 400 and the (non-empty)
  errors by field, and the store is as before. A username that an existing user has is
  invalid, with the error filed under \<^verbatim>\<open>username\<close>.
\<close>

theorem registration_creates_or_rejects:
  "(\<forall>v. UserSerializer mk s (data req) = Inr v \<longrightarrow>
      (\<exists>u. UserRegistrationView_create (UserSerializer mk) s req =
              (Response 201 (Dict [(''user_id'', JNum (user_id u)), (''username'', JStr (username u))]),
               s\<lparr>users := users s @ [u]\<rparr>) \<and>
           u = v\<lparr>user_id := next_id (map user_id (users s))\<rparr> \<and>
           user_id u \<notin> user_id ` set (users s) \<and>
           username u \<notin> username ` set (users s))) \<and>
   (\<forall>errs. UserSerializer mk s (data req) = Inl errs \<longrightarrow>
      errs \<noteq> [] \<and>
      UserRegistrationView_create (UserSerializer mk) s req = (Response 400 (Errors errs), s)) \<and>
   (\<forall>n. CharField True (data req ''username'') = Inr n \<and> n \<in> username ` set (users s) \<longrightarrow>
      (\<exists>errs. UserSerializer mk s (data req) = Inl errs \<and>
         (''username'', [''A user with that username already exists.'']) \<in> set errs))"
proof (intro conjI allI impI)
  fix v assume v: "UserSerializer mk s (data req) = Inr v"
  let ?u = "v\<lparr>user_id := next_id (map user_id (users s))\<rparr>"
  from UserSerializer_Inr [OF v] have fresh_name: "username v \<notin> username ` set (users s)" .
  have fresh_id: "user_id ?u \<notin> user_id ` set (users s)"
    using next_id_fresh [of "map user_id (users s)"] by simp
  have "UserRegistrationView_create (UserSerializer mk) s req =
          (Response 201 (Dict [(''user_id'', JNum (user_id ?u)), (''username'', JStr (username ?u))]),
           s\<lparr>users := users s @ [?u]\<rparr>)"
    using v fresh_name by (simp add: UserRegistrationView_create_def User_insert_def Let_def)
  with fresh_id fresh_name
  show "\<exists>u. UserRegistrationView_create (UserSerializer mk) s req =
              (Response 201 (Dict [(''user_id'', JNum (user_id u)), (''username'', JStr (username u))]),
               s\<lparr>users := users s @ [u]\<rparr>) \<and>
           u = v\<lparr>user_id := next_id (map user_id (users s))\<rparr> \<and>
           user_id u \<notin> user_id ` set (users s) \<and>
           username u \<notin> username ` set (users s)"
    by (intro exI [of _ ?u]) simp
next
  fix errs assume e: "UserSerializer mk s (data req) = Inl errs"
  from UserSerializer_Inl [OF e] show "errs \<noteq> []" .
  from e show "UserRegistrationView_create (UserSerializer mk) s req = (Response 400 (Errors errs), s)"
    by (simp add: UserRegistrationView_create_def)
next
  fix n assume "CharField True (data req ''username'') = Inr n \<and> n \<in> username ` set (users s)"
  then show "\<exists>errs. UserSerializer mk s (data req) = Inl errs \<and>
         (''username'', [''A user with that username already exists.'']) \<in> set errs"
    using UserSerializer_duplicate by blast
qed


theorem registration_creates_or_rejects_witness:
  "UserRegistrationView_create (UserSerializer plain_hash) demo_store register_bob =
     (Response 201 (Dict [(''user_id'', JNum 2), (''username'', JStr ''bob'')]),
      demo_store\<lparr>users := [alice, bob]\<rparr>) \<and>
   UserRegistrationView_create (UserSerializer plain_hash) demo_store register_alice_again =
     (Response 400 (Errors [(''username'', [''A user with that username already exists.''])]),
      demo_store)"
proof -
  have ok: "UserSerializer plain_hash demo_store (data register_bob) = Inr (bob\<lparr>user_id := 0\<rparr>)"
    by code_simp
  have dup: "UserSerializer plain_hash demo_store (data register_alice_again) =
     Inl [(''username'', [''A user with that username already exists.''])]"
    by code_simp
  have nid: "next_id [user_id alice] = 2" by code_simp
  have us: "users demo_store = [alice]" by code_simp
  have b: "bob\<lparr>user_id := 2\<rparr> = bob" by code_simp
  from registration_creates_or_rejects [of plain_hash demo_store register_bob] ok
  have r1: "UserRegistrationView_create (UserSerializer plain_hash) demo_store register_bob =
     (Response 201 (Dict [(''user_id'', JNum 2), (''username'', JStr ''bob'')]),
      demo_store\<lparr>users := [alice, bob]\<rparr>)"
    by (auto simp: nid us b bob_def)
  from registration_creates_or_rejects [of plain_hash demo_store register_alice_again] dup
  have r2: "UserRegistrationView_create (UserSerializer plain_hash) demo_store register_alice_again =
     (Response 400 (Errors [(''username'', [''A user with that username already exists.''])]),
      demo_store)"
    by blast
  from r1 r2 show ?thesis by simp
qed

section \<open>Who may call the Book views\<close>

lemma TokenAuthentication_refusal:
  "TokenAuthentication s req = Inl r \<Longrightarrow> \<exists>msg. r = Response 401 (Detail msg)"
  by (auto simp: TokenAuthentication_def split: option.splits if_splits)

lemma anonymous_permitted:
  "list_all (\<lambda>p. has_permission p None) ps \<longleftrightarrow> IsAuthenticated \<notin> set ps"
proof (induction ps)
  case Nil
  then show ?case by simp
next
  case (Cons p ps)
  then show ?case by (cases p) auto
qed

lemma initial_unauthenticated:
  assumes "\<forall>u. TokenAuthentication s req \<noteq> Inr (Some u)"
    and "IsAuthenticated \<in> set (get_permissions cfg v)"
  shows "\<exists>msg. initial cfg v s req = Inl (Response 401 (Detail msg))"
proof (cases "TokenAuthentication s req")
  case (Inl r)
  with TokenAuthentication_refusal [OF Inl] show ?thesis
    by (auto simp: initial_def)
next
  case (Inr u)
  with assms(1) have "u = None" by (cases u) auto
  with Inr assms(2) show ?thesis
    by (simp add: initial_def anonymous_permitted)
qed

lemma initial_anonymous_allowed:
  assumes "auth_token req = None" and "IsAuthenticated \<notin> set (get_permissions cfg v)"
  shows "initial cfg v s req = Inr None"
  using assms by (simp add: initial_def TokenAuthentication_def anonymous_permitted)

text \<open>
  The views that declare no permission classes follow the project's default. A default
  that does not ask for authentication lets an anonymous request through to the three
  separate Book views; a default that asks for it closes registration to anonymous
  callers as well.
\<close>

lemma separate_views_follow_the_default:
  assumes "auth_token req = None" and "IsAuthenticated \<notin> set (DEFAULT_PERMISSION_CLASSES cfg)"
  shows "BookDetailView_get cfg s req pk = (RetrieveModelMixin_retrieve cfg s BookDetailView req pk, s)"
    and "BookCreateView_post cfg is_valid s req = CreateModelMixin_create is_valid s req"
    and "BookListView_get cfg s req = (BookListView_list cfg s req, s)"
proof -
  from assms have 1: "initial cfg BookDetailView s req = Inr None"
    by (intro initial_anonymous_allowed) (simp_all add: get_permissions_def BookDetailView_def)
  from assms have 2: "initial cfg BookCreateView s req = Inr None"
    by (intro initial_anonymous_allowed) (simp_all add: get_permissions_def BookCreateView_def)
  from assms have 3: "initial cfg BookListView s req = Inr None"
    by (intro initial_anonymous_allowed) (simp_all add: get_permissions_def BookListView_def)
  from 1 show "BookDetailView_get cfg s req pk = (RetrieveModelMixin_retrieve cfg s BookDetailView req pk, s)"
    by (simp add: BookDetailView_get_def)
  from 2 show "BookCreateView_post cfg is_valid s req = CreateModelMixin_create is_valid s req"
    by (simp add: BookCreateView_post_def)
  from 3 show "BookListView_get cfg s req = (BookListView_list cfg s req, s)"
    by (simp add: BookListView_get_def)
qed

lemma registration_follows_the_default:
  assumes "auth_token req = None" and "IsAuthenticated \<in> set (DEFAULT_PERMISSION_CLASSES cfg)"
  shows "\<exists>msg. UserRegistrationView_post cfg is_valid s req = (Response 401 (Detail msg), s)"
proof -
  from assms(2) have p: "IsAuthenticated \<in> set (get_permissions cfg UserRegistrationView)"
    by (simp add: get_permissions_def UserRegistrationView_def)
  from assms(1) have "\<forall>u. TokenAuthentication s req \<noteq> Inr (Some u)"
    by (simp add: TokenAuthentication_def)
  from initial_unauthenticated [OF this p] show ?thesis
    by (auto simp: UserRegistrationView_post_def)
qed

text \<open>
  C1, as amended. A request without a valid authenticated caller (no token, a token that
  is not in the table, a token of an inactive user) to any action of
  \<^verbatim>\<open>BookViewSet\<close> is answered with status 401 and a bare detail message, and the
  store is as before. The separate detail, create and listing-page views declare no
  permission classes; they answer such a request in the same way when the project's
  default permission classes include \<^verbatim>\<open>IsAuthenticated\<close>.
\<close>

theorem book_endpoints_authentication:
  assumes "\<forall>u. TokenAuthentication s req \<noteq> Inr (Some u)"
  shows "(\<exists>msg. BookViewSet_dispatch cfg is_valid s a req = (Response 401 (Detail msg), s)) \<and>
         (IsAuthenticated \<in> set (DEFAULT_PERMISSION_CLASSES cfg) \<longrightarrow>
            (\<exists>msg. BookDetailView_get cfg s req pk = (Response 401 (Detail msg), s)) \<and>
            (\<exists>msg. BookCreateView_post cfg is_valid s req = (Response 401 (Detail msg), s)) \<and>
            (\<exists>msg. BookListView_get cfg s req = (Response 401 (Detail msg), s)))"
proof (intro conjI impI)
  have "IsAuthenticated \<in> set (get_permissions cfg BookViewSet)"
    by (simp add: get_permissions_def BookViewSet_def)
  from initial_unauthenticated [OF assms this]
  show "\<exists>msg. BookViewSet_dispatch cfg is_valid s a req = (Response 401 (Detail msg), s)"
    by (auto simp: BookViewSet_dispatch_def)
next
  assume d: "IsAuthenticated \<in> set (DEFAULT_PERMISSION_CLASSES cfg)"
  then have "IsAuthenticated \<in> set (get_permissions cfg BookDetailView)"
    by (simp add: get_permissions_def BookDetailView_def)
  from initial_unauthenticated [OF assms this]
  show "\<exists>msg. BookDetailView_get cfg s req pk = (Response 401 (Detail msg), s)"
    by (auto simp: BookDetailView_get_def)
  from d have "IsAuthenticated \<in> set (get_permissions cfg BookCreateView)"
    by (simp add: get_permissions_def BookCreateView_def)
  from initial_unauthenticated [OF assms this]
  show "\<exists>msg. BookCreateView_post cfg is_valid s req = (Response 401 (Detail msg), s)"
    by (auto simp: BookCreateView_post_def)
  from d have "IsAuthenticated \<in> set (get_permissions cfg BookListView)"
    by (simp add: get_permissions_def BookListView_def)
  from initial_unauthenticated [OF assms this]
  show "\<exists>msg. BookListView_get cfg s req = (Response 401 (Detail msg), s)"
    by (auto simp: BookListView_get_def)
qed

theorem book_endpoints_authentication_witness:
  "BookViewSet_dispatch framework_defaults BookSerializer demo_store (Retrieve 1) anonymous =
     (Response 401 (Detail ''Authentication credentials were not provided.''), demo_store) \<and>
   BookViewSet_dispatch strict_settings BookSerializer logged_in_store (Destroy 1) stale_token =
     (Response 401 (Detail ''Invalid token.''), logged_in_store) \<and>
   BookDetailView_get strict_settings logged_in_store stale_token 1 =
     (Response 401 (Detail ''Invalid token.''), logged_in_store) \<and>
   BookCreateView_post strict_settings BookSerializer demo_store new_book_anonymous =
     (Response 401 (Detail ''Authentication credentials were not provided.''), demo_store)"
proof -
  have a: "\<forall>u. TokenAuthentication demo_store anonymous \<noteq> Inr (Some u)"
    by (simp add: TokenAuthentication_def anonymous_def)
  have "TokenAuthentication logged_in_store stale_token = Inl (Response 401 (Detail ''Invalid token.''))"
    by code_simp
  then have b: "\<forall>u. TokenAuthentication logged_in_store stale_token \<noteq> Inr (Some u)"
    by simp
  have c: "\<forall>u. TokenAuthentication demo_store new_book_anonymous \<noteq> Inr (Some u)"
    by (simp add: TokenAuthentication_def new_book_anonymous_def)
  have d: "IsAuthenticated \<in> set (DEFAULT_PERMISSION_CLASSES strict_settings)"
    by (simp add: strict_settings_def)
  have r1: "BookViewSet_dispatch framework_defaults BookSerializer demo_store (Retrieve 1) anonymous =
     (Response 401 (Detail ''Authentication credentials were not provided.''), demo_store)"
    and r2: "BookViewSet_dispatch strict_settings BookSerializer logged_in_store (Destroy 1) stale_token =
     (Response 401 (Detail ''Invalid token.''), logged_in_store)"
    and r3: "BookDetailView_get strict_settings logged_in_store stale_token 1 =
     (Response 401 (Detail ''Invalid token.''), logged_in_store)"
    and r4: "BookCreateView_post strict_settings BookSerializer demo_store new_book_anonymous =
     (Response 401 (Detail ''Authentication credentials were not provided.''), demo_store)"
    by code_simp+
  from book_endpoints_authentication [OF a, of framework_defaults BookSerializer "Retrieve 1" 1]
    book_endpoints_authentication [OF b, of strict_settings BookSerializer "Destroy 1" 1]
    book_endpoints_authentication [OF c, of strict_settings BookSerializer "Create" 1]
    d r1 r2 r3 r4
  show ?thesis by simp
qed

text \<open>
  C1 as stated fails on the separate views: with the permission classes the framework
  uses when the project sets none, an anonymous request reads a book through
  \<^verbatim>\<open>BookDetailView\<close> and adds one through \<^verbatim>\<open>BookCreateView\<close>.
\<close>

theorem separate_book_views_serve_anonymous:
  "TokenAuthentication demo_store anonymous = Inr None \<and>
   BookDetailView_get framework_defaults demo_store anonymous 1 =
     (Response 200 (BookData war_and_peace), demo_store) \<and>
   TokenAuthentication demo_store new_book_anonymous = Inr None \<and>
   BookCreateView_post framework_defaults BookSerializer demo_store new_book_anonymous =
     (Response 201 (BookData persuasion), demo_store\<lparr>books := [war_and_peace, emma, persuasion]\<rparr>)"
  by code_simp

section \<open>The listing page\<close>

lemma mset_order_by_field: "mset (order_by_field f qs) = mset qs"
  by (simp add: order_by_field_def)

lemma mset_order_by_term: "mset (order_by_term t qs) = mset qs"
  by (cases t) (simp_all add: order_by_term_def mset_order_by_field)

lemma mset_OrderingFilter: "mset (OrderingFilter_filter_queryset req qs) = mset qs"
proof -
  have "mset (foldr order_by_term ts qs) = mset qs" for ts
    by (induction ts) (simp_all add: mset_order_by_term)
  then show ?thesis by (simp add: OrderingFilter_filter_queryset_def)
qed


lemma get_search_terms_refused:
  "get_search_terms req = Inl e \<longleftrightarrow>
     CHR 0x00 \<in> set (search_param req) \<and>
     e = Response 400 (ErrorList [''Null characters are not allowed.''])"
  by (auto simp: get_search_terms_def Let_def)

lemma get_search_terms_accepted:
  "get_search_terms req = Inr ts \<longleftrightarrow>
     CHR 0x00 \<notin> set (search_param req) \<and> ts = search_smart_split (search_param req)"
  by (auto simp: get_search_terms_def Let_def)

lemma no_search_fields:
  "search_fields v = [] \<Longrightarrow>
   SearchFilter_filter_queryset v req qs =
     (case get_search_terms req of Inl refused \<Rightarrow> Inl refused | Inr terms \<Rightarrow> Inr qs)"
  by (simp add: SearchFilter_filter_queryset_def split: sum.splits)

lemma no_filterset_fields:
  "filterset_fields v = [] \<Longrightarrow> DjangoFilterBackend_filter_queryset s v req qs = qs"
  by (simp add: DjangoFilterBackend_filter_queryset_def)

lemma backend_plain_view:
  assumes "search_fields v = []" and "filterset_fields v = []"
  shows "backend_filter_queryset s v req b qs = Inr qs' \<Longrightarrow> mset qs' = mset qs"
    and "backend_filter_queryset s v req b qs = Inl e \<Longrightarrow>
           b = SearchFilter \<and> get_search_terms req = Inl e"
  using assms
  by (cases b; auto simp: no_search_fields no_filterset_fields mset_OrderingFilter
      split: sum.splits)+

lemma fold_backends_refused:
  "fold (\<lambda>backend r. case r of Inl refused \<Rightarrow> Inl refused
                       | Inr qs \<Rightarrow> backend_filter_queryset s v req backend qs) bs (Inl e) = Inl e"
  by (induction bs) simp_all

lemma fold_backends_plain_view:
  assumes "search_fields v = []" and "filterset_fields v = []"
  shows "(\<forall>qs'. fold (\<lambda>backend r. case r of Inl refused \<Rightarrow> Inl refused
                       | Inr qs \<Rightarrow> backend_filter_queryset s v req backend qs) bs (Inr qs) = Inr qs'
               \<longrightarrow> mset qs' = mset qs) \<and>
         (\<forall>e. fold (\<lambda>backend r. case r of Inl refused \<Rightarrow> Inl refused
                       | Inr qs \<Rightarrow> backend_filter_queryset s v req backend qs) bs (Inr qs) = Inl e
               \<longrightarrow> SearchFilter \<in> set bs \<and> get_search_terms req = Inl e)"
proof (induction bs arbitrary: qs)
  case Nil
  then show ?case by simp
next
  case (Cons b bs)
  show ?case
  proof (cases "backend_filter_queryset s v req b qs")
    case (Inl e)
    with backend_plain_view(2) [OF assms Inl] show ?thesis
      by (simp add: fold_backends_refused)
  next
    case (Inr qs1)
    with backend_plain_view(1) [OF assms Inr] Cons.IH [of qs1] show ?thesis
      by simp
  qed
qed

lemma BookListView_filter_queryset:
  "(\<forall>qs. filter_queryset cfg s BookListView req (books s) = Inr qs \<longrightarrow> mset qs = mset (books s)) \<and>
   (\<forall>e. filter_queryset cfg s BookListView req (books s) = Inl e \<longrightarrow>
        SearchFilter \<in> set (DEFAULT_FILTER_BACKENDS cfg) \<and> get_search_terms req = Inl e)"
proof -
  have sf: "search_fields BookListView = []" and ff: "filterset_fields BookListView = []"
    and bs: "get_filter_backends cfg BookListView = DEFAULT_FILTER_BACKENDS cfg"
    by (simp_all add: BookListView_def get_filter_backends_def)
  from fold_backends_plain_view [OF sf ff, of s req "DEFAULT_FILTER_BACKENDS cfg" "books s"]
  show ?thesis
    by (simp only: filter_queryset_def bs)
qed

text \<open>
  C8. The listing page hands the template all authors, all categories and the books as
  \<^verbatim>\<open>filter_queryset\<close> returns them, in one response; it writes nothing and paginates
  nothing. \<^verbatim>\<open>BookListView\<close> declares neither search fields nor filterset fields, so
  whatever backends the project configures, the books of the page are all the books of
  the store, at most in another order. The one request that gets no page is a search
  string with a NUL character under a project default that includes the search filter,
  which the filter refuses with status 400.
\<close>

theorem listing_page_reference_lists:
  "(\<forall>qs. filter_queryset cfg s BookListView req (books s) = Inr qs \<longrightarrow>
      BookListView_list cfg s req =
        Response 200 (Rendered ''bookstore_app/book_list.html'' (authors s) (categories s) qs) \<and>
      mset qs = mset (books s)) \<and>
   (\<forall>e. filter_queryset cfg s BookListView req (books s) = Inl e \<longrightarrow>
      BookListView_list cfg s req = e \<and>
      e = Response 400 (ErrorList [''Null characters are not allowed.'']) \<and>
      SearchFilter \<in> set (DEFAULT_FILTER_BACKENDS cfg) \<and> CHR 0x00 \<in> set (search_param req)) \<and>
   snd (BookListView_get cfg s req) = s"
proof (intro conjI allI impI)
  fix qs assume "filter_queryset cfg s BookListView req (books s) = Inr qs"
  with BookListView_filter_queryset [of cfg s req]
  show "BookListView_list cfg s req =
          Response 200 (Rendered ''bookstore_app/book_list.html'' (authors s) (categories s) qs)"
    and "mset qs = mset (books s)"
    by (simp_all add: BookListView_list_def)
next
  fix e assume e: "filter_queryset cfg s BookListView req (books s) = Inl e"
  then show "BookListView_list cfg s req = e"
    by (simp add: BookListView_list_def)
  from e BookListView_filter_queryset [of cfg s req]
  have "SearchFilter \<in> set (DEFAULT_FILTER_BACKENDS cfg)" and "get_search_terms req = Inl e"
    by blast+
  then show "e = Response 400 (ErrorList [''Null characters are not allowed.''])"
    and "SearchFilter \<in> set (DEFAULT_FILTER_BACKENDS cfg)"
    and "CHR 0x00 \<in> set (search_param req)"
    by (simp_all add: get_search_terms_refused)
next
  show "snd (BookListView_get cfg s req) = s"
    by (simp add: BookListView_get_def split: sum.splits)
qed

theorem listing_page_reference_lists_witness:
  "BookListView_list framework_defaults demo_store anonymous =
     Response 200 (Rendered ''bookstore_app/book_list.html'' [tolstoy, austen] [novels]
                     [war_and_peace, emma]) \<and>
   BookListView_list search_by_default demo_store nul_search =
     Response 400 (ErrorList [''Null characters are not allowed.''])"
proof -
  have a: "authors demo_store = [tolstoy, austen]" and c: "categories demo_store = [novels]"
    and b: "filter_queryset framework_defaults demo_store BookListView anonymous (books demo_store) =
            Inr [war_and_peace, emma]"
    and n: "filter_queryset search_by_default demo_store BookListView nul_search (books demo_store) =
            Inl (Response 400 (ErrorList [''Null characters are not allowed.'']))"
    by code_simp+
  from listing_page_reference_lists [of framework_defaults demo_store anonymous] a b c
  have 1: "BookListView_list framework_defaults demo_store anonymous =
     Response 200 (Rendered ''bookstore_app/book_list.html'' [tolstoy, austen] [novels]
                     [war_and_peace, emma])"
    by simp
  from listing_page_reference_lists [of search_by_default demo_store nul_search] n
  have 2: "BookListView_list search_by_default demo_store nul_search =
     Response 400 (ErrorList [''Null characters are not allowed.''])"
    by simp
  from 1 2 show ?thesis by simp
qed

section \<open>Filtering the book list by author or category name\<close>

lemma search_terms_other_param:
  "k \<noteq> ''search'' \<Longrightarrow>
   get_search_terms (req\<lparr>query_params := (query_params req)(k := x)\<rparr>) = get_search_terms req"
  by (simp add: get_search_terms_def search_param_def)

lemma ordering_other_param:
  "k \<noteq> ''ordering'' \<Longrightarrow>
   get_ordering (req\<lparr>query_params := (query_params req)(k := x)\<rparr>) = get_ordering req"
  by (simp add: get_ordering_def)

lemma page_size_other_param:
  "k \<noteq> ''page_size'' \<Longrightarrow>
   get_page_size CustomPagination (req\<lparr>query_params := (query_params req)(k := x)\<rparr>) =
   get_page_size CustomPagination req"
  by (simp add: get_page_size_def CustomPagination_def)

lemma paginate_other_param:
  "k \<noteq> ''page_size'' \<Longrightarrow> k \<noteq> ''page'' \<Longrightarrow>
   paginate_queryset CustomPagination (req\<lparr>query_params := (query_params req)(k := x)\<rparr>) qs =
   paginate_queryset CustomPagination req qs"
  by (simp add: paginate_queryset_def page_size_other_param cong: option.case_cong if_cong)


lemma BookViewSet_filter_queryset:
  "filter_queryset cfg s BookViewSet req qs =
     (case SearchFilter_filter_queryset BookViewSet req qs of
        Inl refused \<Rightarrow> Inl refused
      | Inr found \<Rightarrow> Inr (OrderingFilter_filter_queryset req found))"
  by (simp add: filter_queryset_def get_filter_backends_def BookViewSet_def split: sum.splits)

lemma BookViewSet_filter_other_param:
  assumes "k \<noteq> ''search''" and "k \<noteq> ''ordering''"
  shows "filter_queryset cfg s BookViewSet (req\<lparr>query_params := (query_params req)(k := x)\<rparr>) qs =
         filter_queryset cfg s BookViewSet req qs"
  using assms
  by (simp add: BookViewSet_filter_queryset OrderingFilter_filter_queryset_def
      SearchFilter_filter_queryset_def search_terms_other_param ordering_other_param
      split: sum.splits)

lemma pagination_class_BookViewSet: "pagination_class BookViewSet = Some CustomPagination"
  by (simp add: BookViewSet_def)

lemma BookViewSet_list_unfold:
  "BookViewSet_list cfg s req =
     (case filter_queryset cfg s BookViewSet req (books s) of
        Inl refused \<Rightarrow> refused
      | Inr qs \<Rightarrow>
          (case paginate_queryset CustomPagination req qs of
             Inl not_found \<Rightarrow> not_found
           | Inr None \<Rightarrow> Response 200 (BookList qs)
           | Inr (Some page) \<Rightarrow> Response 200 (Paginated (length qs) page)))"
  by (simp add: BookViewSet_list_def ListModelMixin_list_def pagination_class_BookViewSet
      split: sum.splits)


text \<open>
  \<^verbatim>\<open>BookViewSet\<close> lists \<^verbatim>\<open>SearchFilter\<close> and \<^verbatim>\<open>OrderingFilter\<close> as its filter
  backends. Neither reads \<^verbatim>\<open>filterset_fields\<close>, so the answer to a list request does
  not depend on the \<^verbatim>\<open>author__name\<close> or \<^verbatim>\<open>category__name\<close> parameter, while the
  backend that does read them would keep exactly the books of that name.
\<close>

lemma filterset_params_not_read:
  assumes "k \<in> set (filterset_fields BookViewSet)"
  shows "BookViewSet_list cfg s (req\<lparr>query_params := (query_params req)(k := x)\<rparr>) =
         BookViewSet_list cfg s req"
proof -
  from assms have k: "k \<noteq> ''search''" "k \<noteq> ''ordering''" "k \<noteq> ''page_size''" "k \<noteq> ''page''"
    by (auto simp: BookViewSet_def)
  show ?thesis
    by (simp add: BookViewSet_list_unfold
        BookViewSet_filter_other_param [OF k(1,2)] paginate_other_param [OF k(3,4)]
        split: sum.splits option.splits)
qed

lemma DjangoFilterBackend_would_filter:
  "set (DjangoFilterBackend_filter_queryset s BookViewSet req qs) =
     {b \<in> set qs.
        (\<forall>x. query_params req ''category__name'' = Some x \<and> x \<noteq> [] \<longrightarrow>
             related_value s ''category__name'' b = Some x) \<and>
        (\<forall>x. query_params req ''author__name'' = Some x \<and> x \<noteq> [] \<longrightarrow>
             related_value s ''author__name'' b = Some x)}"
  by (auto simp: DjangoFilterBackend_filter_queryset_def BookViewSet_def split: option.splits)

text \<open>
  C2. The list request of an authenticated caller with \<^verbatim>\<open>author__name=Jane Austen\<close>
  is answered with both books of the store, the one by Leo Tolstoy included.
\<close>

theorem author_name_filter_ignored:
  "query_params austen_only ''author__name'' = Some ''Jane Austen'' \<and>
   related_value logged_in_store ''author__name'' war_and_peace = Some ''Leo Tolstoy'' \<and>
   BookViewSet_dispatch framework_defaults BookSerializer logged_in_store List austen_only =
     (Response 200 (Paginated 2 [war_and_peace, emma]), logged_in_store)"
  by code_simp


section \<open>Pagination of the book list\<close>

lemma page_size_bounds:
  "\<exists>k. get_page_size CustomPagination req = Some k \<and> 1 \<le> k \<and> k \<le> 100"
  by (auto simp: get_page_size_def CustomPagination_def positive_int_def
      split: option.splits if_splits)

lemma paginate_CustomPagination:
  assumes "get_page_size CustomPagination req = Some k"
  shows "paginate_queryset CustomPagination req qs = Inl (Response 404 (Detail ''Invalid page.'')) \<or>
         (\<exists>number. paginate_queryset CustomPagination req qs =
                     Inr (Some (take k (drop (number * k) qs))))"
proof -
  from page_size_bounds [of req] assms have k: "k \<noteq> 0" by auto
  define page_number where "page_number =
    (case query_params req ''page'' of
       None \<Rightarrow> Some 1
     | Some v \<Rightarrow> if v = [] then Some 1
                 else if v = ''last'' then Some (int (num_pages (length qs) k))
                 else parse_int v)"
  have unfold: "paginate_queryset CustomPagination req qs =
    (case page_number of
       None \<Rightarrow> Inl (Response 404 (Detail ''Invalid page.''))
     | Some number \<Rightarrow>
         if number < 1 \<or> int (num_pages (length qs) k) < number
         then Inl (Response 404 (Detail ''Invalid page.''))
         else Inr (Some (take k (drop ((nat number - 1) * k) qs))))"
    using assms k by (simp add: paginate_queryset_def Let_def page_number_def)
  show ?thesis
  proof (cases page_number)
    case None
    with unfold show ?thesis by simp
  next
    case (Some number)
    show ?thesis
    proof (cases "number < 1 \<or> int (num_pages (length qs) k) < number")
      case True
      with unfold Some show ?thesis by simp
    next
      case False
      with unfold Some
      have "paginate_queryset CustomPagination req qs =
              Inr (Some (take k (drop ((nat number - 1) * k) qs)))"
        by simp
      then show ?thesis by blast
    qed
  qed
qed


lemma BookViewSet_filter_refused:
  assumes "filter_queryset cfg s BookViewSet req qs = Inl e"
  shows "e = Response 400 (ErrorList [''Null characters are not allowed.'']) \<and>
         CHR 0x00 \<in> set (search_param req)"
proof -
  from assms have "get_search_terms req = Inl e"
    by (auto simp: BookViewSet_filter_queryset SearchFilter_filter_queryset_def Let_def
        split: sum.splits if_splits)
  then show ?thesis by (simp add: get_search_terms_refused)
qed

lemma BookViewSet_list_pages:
  "BookViewSet_list cfg s req = Response 404 (Detail ''Invalid page.'') \<or>
   (BookViewSet_list cfg s req = Response 400 (ErrorList [''Null characters are not allowed.'']) \<and>
    CHR 0x00 \<in> set (search_param req)) \<or>
   (\<exists>k number qs. filter_queryset cfg s BookViewSet req (books s) = Inr qs \<and>
      get_page_size CustomPagination req = Some k \<and>
      BookViewSet_list cfg s req =
        Response 200 (Paginated (length qs) (take k (drop (number * k) qs))))"
proof (cases "filter_queryset cfg s BookViewSet req (books s)")
  case (Inl e)
  with BookViewSet_filter_refused [OF Inl] show ?thesis
    by (simp add: BookViewSet_list_unfold)
next
  case (Inr qs)
  from page_size_bounds [of req] obtain k where k: "get_page_size CustomPagination req = Some k"
    by blast
  from paginate_CustomPagination [OF k, of qs] k Inr
  show ?thesis
    by (auto simp: BookViewSet_list_unfold)
qed





section \<open>Searching the book list\<close>

lemma starts_with_iff: "starts_with v t \<longleftrightarrow> (\<exists>q. v = t @ q)"
  by (induction v t rule: starts_with.induct) auto

lemma contains_iff: "contains v t \<longleftrightarrow> (\<exists>p q. v = p @ t @ q)"
proof (induction v)
  case Nil
  then show ?case by simp
next
  case (Cons c cs)
  show ?case
  proof
    assume "contains (c # cs) t"
    then consider "starts_with (c # cs) t" | "contains cs t" by auto
    then show "\<exists>p q. c # cs = p @ t @ q"
    proof cases
      case 1
      then obtain q where "c # cs = t @ q" by (auto simp: starts_with_iff)
      then have "c # cs = [] @ t @ q" by simp
      then show ?thesis by blast
    next
      case 2
      with Cons obtain p q where "cs = p @ t @ q" by blast
      then have "c # cs = (c # p) @ t @ q" by simp
      then show ?thesis by blast
    qed
  next
    assume "\<exists>p q. c # cs = p @ t @ q"
    then obtain p q where pq: "c # cs = p @ t @ q" by blast
    show "contains (c # cs) t"
    proof (cases p)
      case Nil
      with pq have "starts_with (c # cs) t" by (auto simp: starts_with_iff)
      then show ?thesis by simp
    next
      case (Cons a p')
      with pq have "cs = p' @ t @ q" by simp
      with Cons.IH have "contains cs t" by blast
      then show ?thesis by simp
    qed
  qed
qed

lemma icontains_iff: "icontains v t \<longleftrightarrow> (\<exists>p q. map lower v = p @ map lower t @ q)"
  by (simp add: icontains_def contains_iff)


declare smart_split.simps(2) [simp del]

lemma is_quote_not_space: "is_quote c \<Longrightarrow> \<not> is_space c"
  by (auto simp: is_quote_def is_space_def)

lemma comma_plain: "\<not> is_space CHR '',''" "\<not> is_quote CHR '',''"
  by (simp_all add: is_space_def is_quote_def)

lemma quoted_groups_unquoted_head:
  "cs = [] \<or> \<not> is_quote (hd cs) \<Longrightarrow> quoted_groups cs = None"
  by (cases cs) auto

lemma quoted_groups_no_quote:
  assumes "\<forall>x \<in> set cs. \<not> is_quote x"
  shows "quoted_groups (plain_rest cs) = None"
proof (rule quoted_groups_unquoted_head)
  show "plain_rest cs = [] \<or> \<not> is_quote (hd (plain_rest cs))"
  proof (cases "plain_rest cs")
    case Nil
    then show ?thesis by simp
  next
    case (Cons y ys)
    then have "y \<in> set cs"
      unfolding plain_rest_def by (metis list.set_intros(1) set_dropWhileD)
    with assms Cons show ?thesis by simp
  qed
qed

lemma quoted_groups_before_space:
  assumes "\<forall>x \<in> set a. \<not> is_quote x" and "is_space c"
  shows "quoted_groups (plain_rest (a @ c # b)) = None"
proof (rule quoted_groups_unquoted_head)
  let ?P = "\<lambda>c. \<not> is_space c \<and> \<not> is_quote c"
  from assms(2) have split: "plain_rest (a @ c # b) = dropWhile ?P a @ c # b"
    by (simp add: plain_rest_def dropWhile_append3)
  show "plain_rest (a @ c # b) = [] \<or> \<not> is_quote (hd (plain_rest (a @ c # b)))"
  proof (cases "dropWhile ?P a")
    case Nil
    with split assms(2) show ?thesis by (auto dest: is_quote_not_space)
  next
    case (Cons y ys)
    then have "y \<in> set a" by (metis list.set_intros(1) set_dropWhileD)
    with assms(1) Cons split show ?thesis by simp
  qed
qed

lemma smart_split_unquoted:
  assumes "\<forall>x \<in> set (c # cs). \<not> is_quote x" and "\<not> is_space c"
  shows "smart_split (c # cs) =
           takeWhile (\<lambda>x. \<not> is_space x) (c # cs) #
           smart_split (dropWhile (\<lambda>x. \<not> is_space x) (c # cs))"
  using quoted_groups_no_quote [OF assms(1)] assms(2)
  by (simp add: smart_split.simps(2))

lemma smart_split_space:
  assumes "is_space c"
  shows "\<forall>x \<in> set a. \<not> is_quote x \<Longrightarrow> smart_split (a @ c # b) = smart_split a @ smart_split b"
proof (induction a rule: length_induct)
  case (1 a)
  show ?case
  proof (cases a)
    case Nil
    with assms show ?thesis by (simp add: smart_split.simps(2))
  next
    case (Cons x xs)
    show ?thesis
    proof (cases "is_space x")
      case True
      from "1.prems" Cons have "\<forall>y \<in> set xs. \<not> is_quote y" by simp
      with "1.IH" Cons have "smart_split (xs @ c # b) = smart_split xs @ smart_split b" by simp
      with True Cons show ?thesis by (simp add: smart_split.simps(2))
    next
      case False
      let ?ns = "\<lambda>x. \<not> is_space x"
      have none: "quoted_groups (plain_rest (a @ c # b)) = None"
        using "1.prems" assms by (rule quoted_groups_before_space)
      have t: "takeWhile ?ns (a @ c # b) = takeWhile ?ns a"
        using assms by (simp add: takeWhile_tail)
      have d: "dropWhile ?ns (a @ c # b) = dropWhile ?ns a @ c # b"
        using assms by (simp add: dropWhile_append3)
      have shorter: "length (dropWhile ?ns a) < length a"
        using False Cons by (simp add: length_dropWhile_le less_Suc_eq_le)
      have unq: "\<forall>y \<in> set (dropWhile ?ns a). \<not> is_quote y"
        using "1.prems" by (auto dest: set_dropWhileD)
      from "1.IH" shorter unq
      have ih: "smart_split (dropWhile ?ns a @ c # b) = smart_split (dropWhile ?ns a) @ smart_split b"
        by blast
      have "smart_split (a @ c # b) = takeWhile ?ns (a @ c # b) # smart_split (dropWhile ?ns (a @ c # b))"
        using none False Cons by (simp add: smart_split.simps(2))
      also have "\<dots> = (takeWhile ?ns a # smart_split (dropWhile ?ns a)) @ smart_split b"
        by (simp add: t d ih)
      also have "takeWhile ?ns a # smart_split (dropWhile ?ns a) = smart_split a"
        using smart_split_unquoted [of x xs] "1.prems" False Cons by simp
      finally show ?thesis .
    qed
  qed
qed

lemma split_sep_append:
  "split_sep sep w (x @ sep # y) = split_sep sep w x @ split_sep sep [] y"
  by (induction x arbitrary: w) auto

lemma split_sep_no_sep: "sep \<notin> set t \<Longrightarrow> split_sep sep w t = [rev w @ t]"
  by (induction t arbitrary: w) auto

lemma split_sep_chars: "p \<in> set (split_sep sep w t) \<Longrightarrow> set p \<subseteq> set w \<union> set t"
proof (induction t arbitrary: w)
  case Nil
  then show ?case by simp
next
  case (Cons c cs)
  show ?case
  proof (cases "c = sep")
    case True
    with Cons.prems have "p = rev w \<or> p \<in> set (split_sep sep [] cs)" by simp
    with Cons.IH [of "[]"] show ?thesis by auto
  next
    case False
    with Cons.prems have "p \<in> set (split_sep sep (c # w) cs)" by simp
    with Cons.IH [of "c # w"] show ?thesis by auto
  qed
qed

lemma pieces_lstrip:
  "filter (\<lambda>x. x \<noteq> []) (split_sep CHR '','' [] (dropWhile (\<lambda>c. c = CHR '','') t)) =
   filter (\<lambda>x. x \<noteq> []) (split_sep CHR '','' [] t)"
  by (induction t) auto

lemma pieces_rstrip:
  "filter (\<lambda>x. x \<noteq> []) (split_sep CHR '','' [] (rev (dropWhile (\<lambda>c. c = CHR '','') (rev t)))) =
   filter (\<lambda>x. x \<noteq> []) (split_sep CHR '','' [] t)"
proof (induction t rule: rev_induct)
  case Nil
  then show ?case by simp
next
  case (snoc x xs)
  show ?case
  proof (cases "x = CHR '',''")
    case True
    have "split_sep CHR '','' [] (xs @ [CHR '','']) = split_sep CHR '','' [] xs @ [[]]"
      using split_sep_append [of "CHR '',''" "[]" xs "[]"] by simp
    with True snoc show ?thesis by simp
  next
    case False
    then show ?thesis by simp
  qed
qed

lemma pieces_strip_commas:
  "filter (\<lambda>x. x \<noteq> []) (split_sep CHR '','' [] (strip_commas t)) =
   filter (\<lambda>x. x \<noteq> []) (split_sep CHR '','' [] t)"
  by (simp add: strip_commas_def pieces_rstrip pieces_lstrip)

lemma set_strip_commas: "set (strip_commas t) \<subseteq> set t"
  unfolding strip_commas_def by (auto dest!: set_dropWhileD)

lemma strip_no_space: "\<forall>c \<in> set p. \<not> is_space c \<Longrightarrow> strip p = p"
proof -
  assume a: "\<forall>c \<in> set p. \<not> is_space c"
  have "dropWhile is_space xs = xs" if "\<forall>c \<in> set xs. \<not> is_space c" for xs
    using that by (cases xs) auto
  from this [of p] this [of "rev p"] a show ?thesis by (simp add: strip_def)
qed

lemma split_term_unquoted:
  assumes "\<forall>c \<in> set t. \<not> is_quote c \<and> \<not> is_space c"
  shows "split_term t = filter (\<lambda>x. x \<noteq> []) (split_sep CHR '','' [] t)"
proof -
  let ?trimmed = "strip_commas t"
  let ?pieces = "filter (\<lambda>x. x \<noteq> []) (split_sep CHR '','' [] ?trimmed)"
  have not_phrase: "\<not> (?trimmed \<noteq> [] \<and> is_quote (hd ?trimmed) \<and> hd ?trimmed = last ?trimmed)"
  proof
    assume "?trimmed \<noteq> [] \<and> is_quote (hd ?trimmed) \<and> hd ?trimmed = last ?trimmed"
    then have ne: "?trimmed \<noteq> []" and qu: "is_quote (hd ?trimmed)" by blast+
    from ne have "hd ?trimmed \<in> set ?trimmed" by (rule hd_in_set)
    with qu set_strip_commas [of t] assms show False by blast
  qed
  have "strip p = p" if "p \<in> set ?pieces" for p
  proof (rule strip_no_space)
    from that have "p \<in> set (split_sep CHR '','' [] ?trimmed)" by simp
    from split_sep_chars [OF this] have "set p \<subseteq> set ?trimmed" by simp
    with set_strip_commas [of t] assms show "\<forall>c \<in> set p. \<not> is_space c" by blast
  qed
  then have id: "map strip ?pieces = ?pieces" by (intro map_idI) blast
  have "split_term t = map strip ?pieces"
    by (simp only: split_term_def Let_def if_not_P [OF not_phrase])
  with id show ?thesis by (simp only: pieces_strip_commas)
qed

lemma split_term_comma:
  assumes "\<forall>c \<in> set x. \<not> is_quote c \<and> \<not> is_space c" and "\<forall>c \<in> set y. \<not> is_quote c \<and> \<not> is_space c"
  shows "split_term (x @ CHR '','' # y) = split_term x @ split_term y"
proof -
  from assms have "\<forall>c \<in> set (x @ CHR '','' # y). \<not> is_quote c \<and> \<not> is_space c"
    by (auto simp: comma_plain)
  then show ?thesis
    by (simp add: split_term_unquoted assms split_sep_append)
qed

lemma search_smart_split_head:
  assumes "\<forall>x \<in> set b. \<not> is_quote x"
  shows "search_smart_split b =
           split_term (takeWhile (\<lambda>x. \<not> is_space x) b) @
           search_smart_split (dropWhile (\<lambda>x. \<not> is_space x) b)"
proof (cases b)
  case Nil
  then show ?thesis
    by (simp add: search_smart_split_def split_term_def strip_commas_def)
next
  case (Cons y ys)
  show ?thesis
  proof (cases "is_space y")
    case True
    with Cons show ?thesis
      by (simp add: search_smart_split_def split_term_def strip_commas_def)
  next
    case False
    with smart_split_unquoted [of y ys] assms Cons show ?thesis
      by (simp add: search_smart_split_def)
  qed
qed

lemma search_smart_split_comma:
  "\<forall>x \<in> set a. \<not> is_quote x \<Longrightarrow> \<forall>x \<in> set b. \<not> is_quote x \<Longrightarrow>
   search_smart_split (a @ CHR '','' # b) = search_smart_split a @ search_smart_split b"
proof (induction a rule: length_induct)
  case (1 a)
  let ?ns = "\<lambda>x. \<not> is_space x"
  from "1.prems" have unq: "\<forall>x \<in> set (a @ CHR '','' # b). \<not> is_quote x"
    by (auto simp: comma_plain)
  note whole = search_smart_split_head [OF unq]
  from "1.prems" have Tb: "\<forall>c \<in> set (takeWhile ?ns b). \<not> is_quote c \<and> \<not> is_space c"
    by (auto dest: set_takeWhileD)
  from "1.prems" have Ta: "\<forall>c \<in> set (takeWhile ?ns a). \<not> is_quote c \<and> \<not> is_space c"
    by (auto dest: set_takeWhileD)
  show ?case
  proof (cases "\<forall>x \<in> set a. \<not> is_space x")
    case True
    then have t: "takeWhile ?ns (a @ CHR '','' # b) = a @ CHR '','' # takeWhile ?ns b"
      by (simp add: takeWhile_append2 comma_plain)
    from True have d: "dropWhile ?ns (a @ CHR '','' # b) = dropWhile ?ns b"
      by (simp add: dropWhile_append2 comma_plain)
    from True have ta: "takeWhile ?ns a = a" and da: "dropWhile ?ns a = []" by simp_all
    from True "1.prems" have a': "\<forall>c \<in> set a. \<not> is_quote c \<and> \<not> is_space c" by blast
    have "search_smart_split (a @ CHR '','' # b) =
            split_term (a @ CHR '','' # takeWhile ?ns b) @ search_smart_split (dropWhile ?ns b)"
      using whole by (simp only: t d)
    also have "\<dots> = split_term a @ (split_term (takeWhile ?ns b) @ search_smart_split (dropWhile ?ns b))"
      by (simp add: split_term_comma [OF a' Tb])
    also have "split_term (takeWhile ?ns b) @ search_smart_split (dropWhile ?ns b) = search_smart_split b"
      using search_smart_split_head [OF "1.prems"(2)] by simp
    also have "split_term a = search_smart_split a"
      using search_smart_split_head [OF "1.prems"(1)]
      by (simp add: ta da search_smart_split_def)
    finally show ?thesis .
  next
    case False
    then obtain w r where wr: "dropWhile ?ns a = w # r" and w: "is_space w"
      by (metis (mono_tags, lifting) dropWhile_eq_Nil_conv hd_dropWhile list.exhaust list.sel(1))
    from False have t: "takeWhile ?ns (a @ CHR '','' # b) = takeWhile ?ns a"
      by (auto simp: takeWhile_append1)
    from False have d: "dropWhile ?ns (a @ CHR '','' # b) = dropWhile ?ns a @ CHR '','' # b"
      by (auto simp: dropWhile_append1)
    have "length r < length (dropWhile ?ns a)" using wr by simp
    also have "\<dots> \<le> length a" by (rule length_dropWhile_le)
    finally have shorter: "length r < length a" .
    have "set r \<subseteq> set a" using wr by (metis set_dropWhileD set_subset_Cons subsetD subsetI)
    with "1.prems" have r: "\<forall>x \<in> set r. \<not> is_quote x" by blast
    from "1.IH" shorter r "1.prems"(2)
    have ih: "search_smart_split (r @ CHR '','' # b) = search_smart_split r @ search_smart_split b"
      by blast
    have skip: "search_smart_split (w # xs) = search_smart_split xs" for xs
      using w by (simp add: search_smart_split_def smart_split.simps(2))
    have "search_smart_split (a @ CHR '','' # b) =
            split_term (takeWhile ?ns a) @ search_smart_split ((w # r) @ CHR '','' # b)"
      using whole by (simp only: t d wr)
    also have "\<dots> = (split_term (takeWhile ?ns a) @ search_smart_split (w # r)) @ search_smart_split b"
      using skip [of "r @ CHR '','' # b"] skip [of r] ih by simp
    also have "split_term (takeWhile ?ns a) @ search_smart_split (w # r) = search_smart_split a"
      using search_smart_split_head [OF "1.prems"(1)] by (simp add: wr)
    finally show ?thesis .
  qed
qed

lemma search_smart_split_separator:
  assumes "is_space c \<or> c = CHR '',''"
    and "\<forall>x \<in> set a. \<not> is_quote x" and "\<forall>x \<in> set b. \<not> is_quote x"
  shows "search_smart_split (a @ c # b) = search_smart_split a @ search_smart_split b"
proof (cases "is_space c")
  case True
  from smart_split_space [OF True assms(2)] show ?thesis
    by (simp add: search_smart_split_def)
next
  case False
  with assms(1) have "c = CHR '',''" by simp
  with search_smart_split_comma [OF assms(2,3)] show ?thesis by simp
qed

lemma search_smart_split_one_piece:
  assumes "t \<noteq> []" and "\<forall>c \<in> set t. \<not> is_space c \<and> c \<noteq> CHR '','' \<and> \<not> is_quote c"
  shows "search_smart_split t = [t]"
proof -
  let ?ns = "\<lambda>x. \<not> is_space x"
  from assms(2) have t: "takeWhile ?ns t = t" and d: "dropWhile ?ns t = []" by simp_all
  from assms(2) have "\<forall>x \<in> set t. \<not> is_quote x" by blast
  from search_smart_split_head [OF this]
  have "search_smart_split t = split_term t"
    by (simp add: t d search_smart_split_def)
  also have "\<dots> = filter (\<lambda>x. x \<noteq> []) (split_sep CHR '','' [] t)"
    using assms(2) by (intro split_term_unquoted) blast
  also have "\<dots> = [t]"
  proof -
    from assms(2) have "CHR '','' \<notin> set t" by blast
    with assms(1) show ?thesis by (simp add: split_sep_no_sep)
  qed
  finally show ?thesis .
qed

lemma quoted_end_closing:
  "q \<notin> set v \<Longrightarrow> CHR 0x5C \<notin> set v \<Longrightarrow> quoted_end q (v @ q # r) = Some r"
  by (induction v) auto

lemma replace_pair_absent: "a \<notin> set cs \<Longrightarrow> replace_pair a b new cs = cs"
  by (induction a b new cs rule: replace_pair.induct) auto

lemma search_smart_split_phrase:
  assumes "is_quote q" and "q \<notin> set v" and "CHR 0x5C \<notin> set v"
  shows "search_smart_split (q # v @ [q]) = [v]"
proof -
  from assms(1) have q: "\<not> is_space q" "q \<noteq> CHR '',''"
    by (auto simp: is_quote_def is_space_def)
  from assms(1) have "plain_rest (q # v @ [q]) = q # v @ [q]"
    by (simp add: plain_rest_def)
  moreover have "quoted_groups (q # v @ [q]) = Some []"
    using assms(1) quoted_end_closing [OF assms(2,3), of "[]"]
    by (simp add: plain_rest_def)
  ultimately have tokens: "smart_split (q # v @ [q]) = [q # v @ [q]]"
    using q(1) by (simp add: smart_split.simps(2))
  have strip: "strip_commas (q # v @ [q]) = q # v @ [q]"
    using q(2) by (simp add: strip_commas_def)
  have "split_term (q # v @ [q]) = [v]"
    using assms
    by (simp add: split_term_def Let_def strip unescape_string_literal_def replace_pair_absent)
  with tokens show ?thesis by (simp add: search_smart_split_def)
qed

lemma SearchFilter_BookViewSet:
  assumes "CHR 0x00 \<notin> set (search_param req)"
  shows "SearchFilter_filter_queryset BookViewSet req qs =
           Inr (filter (\<lambda>b. \<forall>t \<in> set (search_smart_split (search_param req)).
                              icontains (title b) t \<or> icontains (description b) t) qs)"
proof -
  from assms have terms: "get_search_terms req = Inr (search_smart_split (search_param req))"
    by (simp add: get_search_terms_accepted)
  have fields: "search_fields BookViewSet = [''title'', ''description'']"
    by (simp add: BookViewSet_def)
  show ?thesis
  proof (cases "search_smart_split (search_param req) = []")
    case True
    then show ?thesis
      by (simp add: SearchFilter_filter_queryset_def terms fields)
  next
    case False
    then show ?thesis
      by (simp add: SearchFilter_filter_queryset_def terms fields search_value_def list_all_iff)
  qed
qed

lemma BookViewSet_filter_accepted:
  assumes "CHR 0x00 \<notin> set (search_param req)"
  shows "\<exists>qs. filter_queryset cfg s BookViewSet req (books s) = Inr qs \<and>
           mset qs = mset (filter (\<lambda>b. \<forall>t \<in> set (search_smart_split (search_param req)).
                                     icontains (title b) t \<or> icontains (description b) t) (books s))"
  by (simp add: BookViewSet_filter_queryset SearchFilter_BookViewSet [OF assms] mset_OrderingFilter)

lemma BookViewSet_list_refused:
  assumes "CHR 0x00 \<in> set (search_param req)"
  shows "BookViewSet_list cfg s req = Response 400 (ErrorList [''Null characters are not allowed.''])"
proof -
  from assms have "get_search_terms req =
      Inl (Response 400 (ErrorList [''Null characters are not allowed.'']))"
    by (simp add: get_search_terms_refused)
  then show ?thesis
    by (simp add: BookViewSet_list_unfold BookViewSet_filter_queryset
        SearchFilter_filter_queryset_def)
qed

text \<open>
  C4, as amended. A search string without a NUL character keeps exactly the books in
  which every term of the string occurs, letter case aside, in the title or in the
  description; a search string with a NUL character is refused with status 400. The
  terms of a string without quotes are its non-empty pieces between whitespace and
  commas: the empty string has none, a piece is its own one term, and the terms of two
  strings joined by a separator are the terms of the first followed by those of the
  second. A phrase enclosed in quotes, with neither that quote nor a backslash inside,
  is one term. So for a search string that is one piece the books kept are exactly
  those whose title or description contains the string. The page of the response is cut
  from the books the search kept, and the count is their number: the search is applied
  before pagination.
\<close>

theorem search_matches_every_term:
  "(CHR 0x00 \<notin> set (search_param req) \<longrightarrow>
      (\<exists>qs. filter_queryset cfg s BookViewSet req (books s) = Inr qs \<and>
         mset qs = mset (filter (\<lambda>b. \<forall>t \<in> set (search_smart_split (search_param req)).
                                   icontains (title b) t \<or> icontains (description b) t) (books s)))) \<and>
   (CHR 0x00 \<in> set (search_param req) \<longrightarrow>
      BookViewSet_list cfg s req = Response 400 (ErrorList [''Null characters are not allowed.''])) \<and>
   search_smart_split [] = [] \<and>
   (\<forall>t. t \<noteq> [] \<and> (\<forall>c \<in> set t. \<not> is_space c \<and> c \<noteq> CHR '','' \<and> \<not> is_quote c) \<longrightarrow>
      search_smart_split t = [t]) \<and>
   (\<forall>a c b. (is_space c \<or> c = CHR '','') \<and> (\<forall>x \<in> set a \<union> set b. \<not> is_quote x) \<longrightarrow>
      search_smart_split (a @ c # b) = search_smart_split a @ search_smart_split b) \<and>
   (\<forall>q v. is_quote q \<and> q \<notin> set v \<and> CHR 0x5C \<notin> set v \<longrightarrow>
      search_smart_split (q # v @ [q]) = [v]) \<and>
   (\<forall>v t. icontains v t \<longleftrightarrow> (\<exists>p q. map lower v = p @ map lower t @ q)) \<and>
   (\<forall>t. search_param req = t \<and> t \<noteq> [] \<and>
        (\<forall>c \<in> set t. \<not> is_space c \<and> c \<noteq> CHR '','' \<and> \<not> is_quote c \<and> c \<noteq> CHR 0x00) \<longrightarrow>
      (\<exists>qs. filter_queryset cfg s BookViewSet req (books s) = Inr qs \<and>
         mset qs = mset (filter (\<lambda>b. icontains (title b) t \<or> icontains (description b) t)
                           (books s)))) \<and>
   (BookViewSet_list cfg s req = Response 404 (Detail ''Invalid page.'') \<or>
    (BookViewSet_list cfg s req = Response 400 (ErrorList [''Null characters are not allowed.'']) \<and>
     CHR 0x00 \<in> set (search_param req)) \<or>
    (\<exists>k number qs. filter_queryset cfg s BookViewSet req (books s) = Inr qs \<and>
       get_page_size CustomPagination req = Some k \<and>
       BookViewSet_list cfg s req =
         Response 200 (Paginated (length qs) (take k (drop (number * k) qs)))))"
proof (intro conjI allI impI)
  assume "CHR 0x00 \<notin> set (search_param req)"
  then show "\<exists>qs. filter_queryset cfg s BookViewSet req (books s) = Inr qs \<and>
         mset qs = mset (filter (\<lambda>b. \<forall>t \<in> set (search_smart_split (search_param req)).
                                   icontains (title b) t \<or> icontains (description b) t) (books s))"
    by (rule BookViewSet_filter_accepted)
next
  assume "CHR 0x00 \<in> set (search_param req)"
  then show "BookViewSet_list cfg s req =
      Response 400 (ErrorList [''Null characters are not allowed.''])"
    by (rule BookViewSet_list_refused)
next
  show "search_smart_split [] = []"
    by (simp add: search_smart_split_def)
next
  fix t
  assume "t \<noteq> [] \<and> (\<forall>c \<in> set t. \<not> is_space c \<and> c \<noteq> CHR '','' \<and> \<not> is_quote c)"
  then show "search_smart_split t = [t]"
    by (intro search_smart_split_one_piece) simp_all
next
  fix a c b
  assume "(is_space c \<or> c = CHR '','') \<and> (\<forall>x \<in> set a \<union> set b. \<not> is_quote x)"
  then show "search_smart_split (a @ c # b) = search_smart_split a @ search_smart_split b"
    by (intro search_smart_split_separator) auto
next
  fix q v
  assume "is_quote q \<and> q \<notin> set v \<and> CHR 0x5C \<notin> set v"
  then show "search_smart_split (q # v @ [q]) = [v]"
    by (intro search_smart_split_phrase) simp_all
next
  fix v t
  show "icontains v t \<longleftrightarrow> (\<exists>p q. map lower v = p @ map lower t @ q)"
    by (rule icontains_iff)
next
  fix t
  assume a: "search_param req = t \<and> t \<noteq> [] \<and>
        (\<forall>c \<in> set t. \<not> is_space c \<and> c \<noteq> CHR '','' \<and> \<not> is_quote c \<and> c \<noteq> CHR 0x00)"
  then have "search_smart_split t = [t]"
    by (intro search_smart_split_one_piece) auto
  with a have one: "search_smart_split (search_param req) = [t]" by simp
  from a have "CHR 0x00 \<notin> set (search_param req)" by auto
  from BookViewSet_filter_accepted [OF this, of cfg s]
  show "\<exists>qs. filter_queryset cfg s BookViewSet req (books s) = Inr qs \<and>
         mset qs = mset (filter (\<lambda>b. icontains (title b) t \<or> icontains (description b) t)
                           (books s))"
    by (simp add: one)
next
  show "BookViewSet_list cfg s req = Response 404 (Detail ''Invalid page.'') \<or>
    (BookViewSet_list cfg s req = Response 400 (ErrorList [''Null characters are not allowed.'']) \<and>
     CHR 0x00 \<in> set (search_param req)) \<or>
    (\<exists>k number qs. filter_queryset cfg s BookViewSet req (books s) = Inr qs \<and>
       get_page_size CustomPagination req = Some k \<and>
       BookViewSet_list cfg s req =
         Response 200 (Paginated (length qs) (take k (drop (number * k) qs))))"
    by (rule BookViewSet_list_pages)
qed

theorem search_matches_every_term_witness:
  "search_param napoleonic_search = ''NAPOLEONIC'' \<and>
   \<not> icontains (title war_and_peace) ''NAPOLEONIC'' \<and>
   icontains (description war_and_peace) ''NAPOLEONIC'' \<and>
   filter_queryset framework_defaults logged_in_store BookViewSet napoleonic_search
     (books logged_in_store) = Inr [war_and_peace] \<and>
   BookViewSet_list framework_defaults logged_in_store napoleonic_search =
     Response 200 (Paginated 1 [war_and_peace]) \<and>
   search_smart_split ''war, peace'' = [''war'', ''peace''] \<and>
   search_smart_split (CHR 0x22 # ''war and'' @ [CHR 0x22]) = [''war and''] \<and>
   BookViewSet_list framework_defaults logged_in_store phrase_search =
     Response 200 (Paginated 1 [war_and_peace]) \<and>
   BookViewSet_list framework_defaults logged_in_store nul_search =
     Response 400 (ErrorList [''Null characters are not allowed.''])"
proof -
  note inst = search_matches_every_term [of napoleonic_search framework_defaults logged_in_store]
  note rest = inst [THEN conjunct2, THEN conjunct2, THEN conjunct2]
  note one_piece = rest [THEN conjunct1, rule_format]
  note separator = rest [THEN conjunct2, THEN conjunct1, rule_format]
  note phrase = rest [THEN conjunct2, THEN conjunct2, THEN conjunct1, rule_format]
  note single = rest [THEN conjunct2, THEN conjunct2, THEN conjunct2, THEN conjunct2,
      THEN conjunct1, rule_format]
  note refused = search_matches_every_term [of nul_search framework_defaults logged_in_store,
      THEN conjunct2, THEN conjunct1, rule_format]
  have q: "search_param napoleonic_search = ''NAPOLEONIC''" by code_simp
  have c: "\<forall>c \<in> set ''NAPOLEONIC''.
             \<not> is_space c \<and> c \<noteq> CHR '','' \<and> \<not> is_quote c \<and> c \<noteq> CHR 0x00"
    by code_simp
  have b: "books logged_in_store = [war_and_peace, emma]" by code_simp
  have m: "\<not> icontains (title war_and_peace) ''NAPOLEONIC''"
    "icontains (description war_and_peace) ''NAPOLEONIC''"
    "\<not> icontains (title emma) ''NAPOLEONIC''"
    "\<not> icontains (description emma) ''NAPOLEONIC''"
    by code_simp+
  have "search_param napoleonic_search = ''NAPOLEONIC'' \<and> ''NAPOLEONIC'' \<noteq> [] \<and>
        (\<forall>c \<in> set ''NAPOLEONIC''.
           \<not> is_space c \<and> c \<noteq> CHR '','' \<and> \<not> is_quote c \<and> c \<noteq> CHR 0x00)"
    using q c by simp
  from single [OF this]
  obtain qs where qs: "filter_queryset framework_defaults logged_in_store BookViewSet
        napoleonic_search (books logged_in_store) = Inr qs"
    and ms: "mset qs = mset (filter (\<lambda>b. icontains (title b) ''NAPOLEONIC'' \<or>
                                          icontains (description b) ''NAPOLEONIC'')
                               (books logged_in_store))"
    by (elim exE conjE)
  have "filter (\<lambda>b. icontains (title b) ''NAPOLEONIC'' \<or> icontains (description b) ''NAPOLEONIC'')
          (books logged_in_store) = [war_and_peace]"
    by (simp only: b filter.simps m simp_thms if_True if_False)
  with ms have "mset qs = {#war_and_peace#}" by simp
  then have "qs = [war_and_peace]" by (simp only: mset_single_iff)
  with qs have f: "filter_queryset framework_defaults logged_in_store BookViewSet
        napoleonic_search (books logged_in_store) = Inr [war_and_peace]" by simp
  have w: "''war'' \<noteq> [] \<and> (\<forall>c \<in> set ''war''. \<not> is_space c \<and> c \<noteq> CHR '','' \<and> \<not> is_quote c)"
    and p: "''peace'' \<noteq> [] \<and> (\<forall>c \<in> set ''peace''. \<not> is_space c \<and> c \<noteq> CHR '','' \<and> \<not> is_quote c)"
    and s1: "(is_space CHR '' '' \<or> CHR '' '' = CHR '','') \<and>
             (\<forall>x \<in> set [] \<union> set ''peace''. \<not> is_quote x)"
    and s2: "(is_space CHR '','' \<or> CHR '','' = CHR '','') \<and>
             (\<forall>x \<in> set ''war'' \<union> set '' peace''. \<not> is_quote x)"
    and ph: "is_quote (CHR 0x22) \<and> CHR 0x22 \<notin> set ''war and'' \<and> CHR 0x5C \<notin> set ''war and''"
    by code_simp+
  note t1 = one_piece [OF w]
  note t2 = one_piece [OF p]
  note e = rest [THEN conjunct1] inst [THEN conjunct2, THEN conjunct2, THEN conjunct1]
  have t3: "search_smart_split '' peace'' = [''peace'']"
    using separator [OF s1] t2 inst [THEN conjunct2, THEN conjunct2, THEN conjunct1]
    by (simp only: append_Nil)
  have t4: "search_smart_split ''war, peace'' = [''war'', ''peace'']"
    using separator [OF s2] t1 t3 by (simp only: append_Cons append_Nil)
  have t5: "search_smart_split (CHR 0x22 # ''war and'' @ [CHR 0x22]) = [''war and'']"
    by (rule phrase [OF ph])
  have n: "CHR 0x00 \<in> set (search_param nul_search)" by code_simp
  have r: "BookViewSet_list framework_defaults logged_in_store nul_search =
     Response 400 (ErrorList [''Null characters are not allowed.''])"
    by (rule refused [OF n])
  have l: "BookViewSet_list framework_defaults logged_in_store napoleonic_search =
     Response 200 (Paginated 1 [war_and_peace])"
    and l2: "BookViewSet_list framework_defaults logged_in_store phrase_search =
     Response 200 (Paginated 1 [war_and_peace])"
    by code_simp+
  show ?thesis
    by (intro conjI q m(1) m(2) f l t4 t5 l2 r)
qed

text \<open>
  C4 as stated fails for a search string of several terms: the search for
  \<^verbatim>\<open>war peace\<close> returns both books, and neither has \<^verbatim>\<open>war peace\<close> in its title or
  its description.
\<close>

theorem search_splits_into_terms:
  "query_params war_peace_search ''search'' = Some ''war peace'' \<and>
   BookViewSet_dispatch framework_defaults BookSerializer logged_in_store List war_peace_search =
     (Response 200 (Paginated 2 [war_and_peace, emma]), logged_in_store) \<and>
   \<not> icontains (title emma) ''war peace'' \<and> \<not> icontains (description emma) ''war peace'' \<and>
   \<not> icontains (title war_and_peace) ''war peace'' \<and>
   \<not> icontains (description war_and_peace) ''war peace''"
  by code_simp

end
